theory Spec2Isabelle
  imports Main "HOL-Library.Sublist"
begin

section \<open>The data model of the features tab\<close>

text \<open>
  The component \<^verbatim>\<open>FeaturesTabComponent\<close> edits platform parameters (feature flags):
  it adds, removes and moves their rules, validates them, tracks changes against a
  backup and saves them through the backend.
\<close>

text \<open>
  Modelled from the spec: the classes \<^verbatim>\<open>PlatformParameter\<close>, \<^verbatim>\<open>PlatformParameterRule\<close>
  and \<^verbatim>\<open>PlatformParameterFilter\<close> are declared outside the source at hand. A condition is
  the pair \<^verbatim>\<open>[operator, operand]\<close>, a filter has a type and a sequence of conditions, a
  rule has a sequence of filters and the value it yields when all of them match, and a
  flag has a name, a stage and a sequence of rules: the fields the component uses.
\<close>

datatype PlatformParameterFilterType = PlatformType | AppVersion | AppVersionFlavor

type_synonym condition = "string \<times> string"

record PlatformParameterFilter =
  type :: PlatformParameterFilterType
  conditions :: "condition list"

record PlatformParameterRule =
  filters :: "PlatformParameterFilter list"
  valueWhenMatched :: bool

record PlatformParameter =
  name :: string
  featureStage :: string
  rules :: "PlatformParameterRule list"

section \<open>Deep comparison\<close>

text \<open>
  \<^verbatim>\<open>isEqual\<close> (lodash) compares two values deeply: two arrays are equal when they have
  the same length and equal elements at every index, two objects when all their fields
  are equal. The comparison walks both sequences in lockstep.
\<close>

fun isEqualList :: "('a \<Rightarrow> 'a \<Rightarrow> bool) \<Rightarrow> 'a list \<Rightarrow> 'a list \<Rightarrow> bool" where
  "isEqualList eq [] [] = True"
| "isEqualList eq (x # xs) (y # ys) = (eq x y \<and> isEqualList eq xs ys)"
| "isEqualList eq _ _ = False"

definition isEqualCondition :: "condition \<Rightarrow> condition \<Rightarrow> bool" where
  "isEqualCondition c d = (fst c = fst d \<and> snd c = snd d)"

definition isEqualFilter :: "PlatformParameterFilter \<Rightarrow> PlatformParameterFilter \<Rightarrow> bool" where
  "isEqualFilter f g =
     (type f = type g \<and> isEqualList isEqualCondition (conditions f) (conditions g))"

definition isEqualRule :: "PlatformParameterRule \<Rightarrow> PlatformParameterRule \<Rightarrow> bool" where
  "isEqualRule r s =
     (isEqualList isEqualFilter (filters r) (filters s) \<and>
      valueWhenMatched r = valueWhenMatched s)"

definition isEqualRules :: "PlatformParameterRule list \<Rightarrow> PlatformParameterRule list \<Rightarrow> bool" where
  "isEqualRules rs ss = isEqualList isEqualRule rs ss"

section \<open>The validator\<close>

text \<open>
  \<^verbatim>\<open>Array.prototype.findIndex\<close>: the index of the first element that satisfies the
  predicate; \<open>None\<close> stands for the result \<^verbatim>\<open>-1\<close>.
\<close>

fun findIndex :: "('a \<Rightarrow> bool) \<Rightarrow> 'a list \<Rightarrow> nat option" where
  "findIndex p [] = None"
| "findIndex p (x # xs) =
     (if p x then Some 0 else map_option Suc (findIndex p xs))"

text \<open>The decimal digits of a natural number, as a template literal prints an index.\<close>

definition digit :: "nat \<Rightarrow> char" where
  "digit d = ''0123456789'' ! d"

fun numberToString :: "nat \<Rightarrow> string" where
  "numberToString n =
     (if n < 10 then [digit n] else numberToString (n div 10) @ [digit (n mod 10)])"

declare numberToString.simps [simp del]

text \<open>The three shapes of issue message; the arguments are the 0-based loop indices.\<close>

definition ruleIssue :: "nat \<Rightarrow> nat \<Rightarrow> string" where
  "ruleIssue sameRuleIndex ruleIndex =
     ''The '' @ numberToString (sameRuleIndex + 1) @ ''-th & '' @
     numberToString (ruleIndex + 1) @ ''-th rules are'' @ '' identical.''"

definition filterIssue :: "nat \<Rightarrow> nat \<Rightarrow> nat \<Rightarrow> string" where
  "filterIssue ruleIndex sameFilterIndex filterIndex =
     ''In the '' @ numberToString (ruleIndex + 1) @ ''-th rule: the '' @
     numberToString (sameFilterIndex + 1) @ ''-th'' @ '' & '' @
     numberToString (filterIndex + 1) @ ''-th filters are identical.''"

definition conditionIssue :: "nat \<Rightarrow> nat \<Rightarrow> nat \<Rightarrow> nat \<Rightarrow> string" where
  "conditionIssue ruleIndex filterIndex sameCondIndex conditionIndex =
     ''In the '' @ numberToString (ruleIndex + 1) @ ''-th rule, '' @
     numberToString (filterIndex + 1) @ ''-th'' @ '' filter: the '' @
     numberToString (sameCondIndex + 1) @ ''-th & '' @
     numberToString (conditionIndex + 1) @ ''-th conditions are identical.''"

text \<open>
  The three nested loops of \<^verbatim>\<open>validateFeatureFlag\<close>. Each loop carries the array of
  elements seen so far and the index of the element it looks at; the issues it pushes
  are returned in the order of the pushes. A match pushes an issue and continues with
  the next element: the matching element is not pushed on the seen array and its
  children are not inspected.
\<close>

fun validateConditions :: "nat \<Rightarrow> nat \<Rightarrow> condition list \<Rightarrow> nat \<Rightarrow> condition list \<Rightarrow> string list" where
  "validateConditions ruleIndex filterIndex seenConditions conditionIndex [] = []"
| "validateConditions ruleIndex filterIndex seenConditions conditionIndex (condition # rest) =
     (case findIndex (\<lambda>seenCond. isEqualCondition seenCond condition) seenConditions of
        Some sameCondIndex \<Rightarrow>
          conditionIssue ruleIndex filterIndex sameCondIndex conditionIndex #
          validateConditions ruleIndex filterIndex seenConditions (conditionIndex + 1) rest
      | None \<Rightarrow>
          validateConditions ruleIndex filterIndex (seenConditions @ [condition])
            (conditionIndex + 1) rest)"

fun validateFilters :: "nat \<Rightarrow> PlatformParameterFilter list \<Rightarrow> nat \<Rightarrow> PlatformParameterFilter list \<Rightarrow> string list" where
  "validateFilters ruleIndex seenFilters filterIndex [] = []"
| "validateFilters ruleIndex seenFilters filterIndex (filt # rest) =
     (case findIndex (\<lambda>seenFilter. isEqualFilter seenFilter filt) seenFilters of
        Some sameFilterIndex \<Rightarrow>
          filterIssue ruleIndex sameFilterIndex filterIndex #
          validateFilters ruleIndex seenFilters (filterIndex + 1) rest
      | None \<Rightarrow>
          validateConditions ruleIndex filterIndex [] 0 (conditions filt) @
          validateFilters ruleIndex (seenFilters @ [filt]) (filterIndex + 1) rest)"

fun validateRules :: "PlatformParameterRule list \<Rightarrow> nat \<Rightarrow> PlatformParameterRule list \<Rightarrow> string list" where
  "validateRules seenRules ruleIndex [] = []"
| "validateRules seenRules ruleIndex (rule # rest) =
     (case findIndex (\<lambda>seenRule. isEqualRule seenRule rule) seenRules of
        Some sameRuleIndex \<Rightarrow>
          ruleIssue sameRuleIndex ruleIndex # validateRules seenRules (ruleIndex + 1) rest
      | None \<Rightarrow>
          validateFilters ruleIndex [] 0 (filters rule) @
          validateRules (seenRules @ [rule]) (ruleIndex + 1) rest)"

definition validateFeatureFlag :: "PlatformParameter \<Rightarrow> string list" where
  "validateFeatureFlag feature = validateRules [] 0 (rules feature)"

text \<open>The siblings below a rule are pairwise distinct: its filters, and the conditions of each.\<close>

definition noDuplicateSiblings :: "PlatformParameterRule \<Rightarrow> bool" where
  "noDuplicateSiblings r =
     (distinct (filters r) \<and> (\<forall>f \<in> set (filters r). distinct (conditions f)))"

section \<open>Editing the rules of a flag\<close>

text \<open>
  At the level of values a deep copy is the value itself; that the copy shares no
  object with its original is the subject of the store model further down.
\<close>

definition cloneDeep :: "'a \<Rightarrow> 'a" where
  "cloneDeep x = x"

text \<open>
  Modelled from the spec: the model classes \<^verbatim>\<open>PlatformParameterFilter\<close> and
  \<^verbatim>\<open>PlatformParameterRule\<close> with their \<^verbatim>\<open>createFromBackendDict\<close> are not part of the
  source at hand; the two templates are the objects these constructors build from the
  dictionaries the component passes to them.
\<close>

definition defaultNewFilter :: PlatformParameterFilter where
  "defaultNewFilter = \<lparr>type = PlatformType, conditions = []\<rparr>"

definition defaultNewRule :: PlatformParameterRule where
  "defaultNewRule = \<lparr>filters = [defaultNewFilter], valueWhenMatched = False\<rparr>"

definition addNewRuleToTop :: "PlatformParameter \<Rightarrow> PlatformParameter" where
  "addNewRuleToTop feature = feature\<lparr>rules := cloneDeep defaultNewRule # rules feature\<rparr>"

definition addNewRuleToBottom :: "PlatformParameter \<Rightarrow> PlatformParameter" where
  "addNewRuleToBottom feature = feature\<lparr>rules := rules feature @ [cloneDeep defaultNewRule]\<rparr>"

text \<open>
  \<^verbatim>\<open>Array.prototype.splice(start, deleteCount, ...items)\<close>, as the array it leaves
  behind: a negative start counts from the end and is clamped at 0, a start beyond the
  end is clamped at the length, and the delete count is clamped to what is left.
\<close>

definition spliceArray :: "'a list \<Rightarrow> int \<Rightarrow> int \<Rightarrow> 'a list \<Rightarrow> 'a list" where
  "spliceArray xs start deleteCount items =
     (let len = int (length xs);
          actualStart = (if start < 0 then max (len + start) 0 else min start len);
          actualDeleteCount = min (max deleteCount 0) (len - actualStart)
      in take (nat actualStart) xs @ items @ drop (nat (actualStart + actualDeleteCount)) xs)"

text \<open>Reading \<^verbatim>\<open>xs[i]\<close>: \<open>None\<close> stands for \<^verbatim>\<open>undefined\<close>, the value out of range.\<close>

definition arrayGet :: "'a list \<Rightarrow> int \<Rightarrow> 'a option" where
  "arrayGet xs i = (if 0 \<le> i \<and> i < int (length xs) then Some (xs ! nat i) else None)"

definition removeRule :: "PlatformParameter \<Rightarrow> int \<Rightarrow> PlatformParameter" where
  "removeRule feature ruleIndex = feature\<lparr>rules := spliceArray (rules feature) ruleIndex 1 []\<rparr>"

text \<open>
  Out of range \<^verbatim>\<open>feature.rules[ruleIndex]\<close> is \<^verbatim>\<open>undefined\<close> and the second splice
  inserts it among the rules, which leaves the type \<^verbatim>\<open>PlatformParameterRule[]\<close>; the
  model reports that case as a fault instead of a flag.
\<close>

datatype fault = UndefinedRuleInserted

definition moveRuleUp :: "PlatformParameter \<Rightarrow> int \<Rightarrow> fault + PlatformParameter" where
  "moveRuleUp feature ruleIndex =
     (case arrayGet (rules feature) ruleIndex of
        None \<Rightarrow> Inl UndefinedRuleInserted
      | Some rule \<Rightarrow>
          (let feature1 = removeRule feature ruleIndex
           in Inr (feature1\<lparr>rules := spliceArray (rules feature1) (ruleIndex - 1) 0 [rule]\<rparr>)))"

definition moveRuleDown :: "PlatformParameter \<Rightarrow> int \<Rightarrow> fault + PlatformParameter" where
  "moveRuleDown feature ruleIndex =
     (case arrayGet (rules feature) ruleIndex of
        None \<Rightarrow> Inl UndefinedRuleInserted
      | Some rule \<Rightarrow>
          (let feature1 = removeRule feature ruleIndex
           in Inr (feature1\<lparr>rules := spliceArray (rules feature1) (ruleIndex + 1) 0 [rule]\<rparr>)))"

section \<open>The component\<close>

text \<open>
  What the component does to the outside is kept as a trace: each request to the update
  API and each status message it emits, in the order they happen.
\<close>

datatype event =
    UpdateRequest string string "PlatformParameterRule list"
  | StatusMessage string

record component =
  serverStage :: string
  featureFlagNameToBackupMap :: "string \<rightharpoonup> PlatformParameter"
  featureFlags :: "PlatformParameter list"
  events :: "event list"

definition DEV_SERVER_STAGE :: string where "DEV_SERVER_STAGE = ''dev''"
definition TEST_SERVER_STAGE :: string where "TEST_SERVER_STAGE = ''test''"
definition PROD_SERVER_STAGE :: string where "PROD_SERVER_STAGE = ''prod''"

definition getFeatureValidOnCurrentServer :: "component \<Rightarrow> PlatformParameter \<Rightarrow> bool" where
  "getFeatureValidOnCurrentServer this feature =
     (if serverStage this = DEV_SERVER_STAGE then True
      else if serverStage this = TEST_SERVER_STAGE then
        (if featureStage feature = TEST_SERVER_STAGE \<or> featureStage feature = PROD_SERVER_STAGE
         then True else False)
      else if serverStage this = PROD_SERVER_STAGE then
        (if featureStage feature = PROD_SERVER_STAGE then True else False)
      else False)"

text \<open>A thrown \<^verbatim>\<open>Error\<close> with its message.\<close>

datatype error = Error string

text \<open>
  How the awaited call to the update API ends: it resolves, or it rejects with an
  \<^verbatim>\<open>HttpErrorResponse\<close>, or with anything else. The body \<^verbatim>\<open>e.error\<close> of the response
  may be absent (\<open>None\<close>), and so may its field \<^verbatim>\<open>error\<close>.
\<close>

datatype error_body = ErrorBody "string option"

datatype rejection = HttpErrorResponse "error_body option" | OtherRejection

datatype api_outcome = Resolved | Rejected rejection

definition emit :: "component \<Rightarrow> string \<Rightarrow> component" where
  "emit this message = this\<lparr>events := events this @ [StatusMessage message]\<rparr>"

text \<open>
  \<^verbatim>\<open>updateFeatureFlag\<close>, given how the request ends. The result is the component
  afterwards, or the error thrown together with the component as the throw leaves it.
  The test \<^verbatim>\<open>e.error && e.error.error\<close> is one of truthiness: an empty message counts as
  none.
\<close>

definition updateFeatureFlag ::
    "api_outcome \<Rightarrow> component \<Rightarrow> PlatformParameter \<Rightarrow> string \<Rightarrow> error \<times> component + component" where
  "updateFeatureFlag outcome this feature commitMessage =
     (let this1 = this\<lparr>events := events this @
                   [UpdateRequest (name feature) commitMessage (rules feature)]\<rparr>
      in case outcome of
           Resolved \<Rightarrow>
             Inr (emit (this1\<lparr>featureFlagNameToBackupMap :=
                    (featureFlagNameToBackupMap this1)(name feature \<mapsto> cloneDeep feature)\<rparr>)
                  ''Saved successfully.'')
         | Rejected (HttpErrorResponse body) \<Rightarrow>
             (case body of
                Some (ErrorBody (Some message)) \<Rightarrow>
                  if message \<noteq> [] then Inr (emit this1 (''Update failed: '' @ message))
                  else Inr (emit this1 ''Update failed.'')
              | _ \<Rightarrow> Inr (emit this1 ''Update failed.''))
         | Rejected OtherRejection \<Rightarrow> Inl (Error ''Unexpected error response.'', this1))"

text \<open>
  The loop of \<^verbatim>\<open>saveDefaultValueToStorage\<close>: \<open>api k\<close> is how the \<open>k\<close>-th request of the
  loop ends. Each iteration awaits the save of its flag before the next one begins, and
  an error thrown by a save leaves the loop.
\<close>

definition commitMessageFor :: "PlatformParameter \<Rightarrow> string" where
  "commitMessageFor feature =
     ''Update default value for '' @ [CHR 0x27] @ name feature @ [CHR 0x27] @ ''.''"

fun saveLoop ::
    "(nat \<Rightarrow> api_outcome) \<Rightarrow> nat \<Rightarrow> component \<Rightarrow> PlatformParameter list \<Rightarrow>
     error \<times> component + component" where
  "saveLoop api k this [] = Inr this"
| "saveLoop api k this (feature # rest) =
     (case updateFeatureFlag (api k) this feature (commitMessageFor feature) of
        Inl thrown \<Rightarrow> Inl thrown
      | Inr this1 \<Rightarrow> saveLoop api (k + 1) this1 rest)"

definition saveDefaultValueToStorage ::
    "bool \<Rightarrow> (nat \<Rightarrow> api_outcome) \<Rightarrow> component \<Rightarrow> error \<times> component + component" where
  "saveDefaultValueToStorage confirmed api this =
     (if \<not> confirmed then Inr this else saveLoop api 0 this (featureFlags this))"

text \<open>
  The trace of a run of saves that all came back: the request for each flag, followed by
  the status message its save emitted, flag after flag.
\<close>

definition updateRequestFor :: "PlatformParameter \<Rightarrow> event" where
  "updateRequestFor feature =
     UpdateRequest (name feature) (commitMessageFor feature) (rules feature)"

definition savedTrace :: "PlatformParameter list \<Rightarrow> string list \<Rightarrow> event list" where
  "savedTrace features messages =
     concat (map (\<lambda>(feature, message). [updateRequestFor feature, StatusMessage message])
               (zip features messages))"

text \<open>\<^verbatim>\<open>clearChanges\<close> returns the flag as it leaves it; \<open>confirmed\<close> is the user's answer.\<close>

definition clearChanges :: "bool \<Rightarrow> component \<Rightarrow> PlatformParameter \<Rightarrow> PlatformParameter" where
  "clearChanges confirmed this featureFlag =
     (if \<not> confirmed then featureFlag
      else case featureFlagNameToBackupMap this (name featureFlag) of
             Some backup \<Rightarrow> featureFlag\<lparr>rules := cloneDeep (rules backup)\<rparr>
           | None \<Rightarrow> featureFlag)"

definition isFeatureFlagChanged :: "component \<Rightarrow> PlatformParameter \<Rightarrow> error + bool" where
  "isFeatureFlagChanged this feature =
     (case featureFlagNameToBackupMap this (name feature) of
        None \<Rightarrow> Inl (Error (''Backup not found for feature flag: '' @ name feature))
      | Some original \<Rightarrow> Inr (\<not> isEqualRules (rules original) (rules feature)))"

section \<open>Objects in a store\<close>

text \<open>
  The values above have no identity, the objects of the program have: two rules may be
  equal and yet be two objects, or one object reached along two paths, and an edit of
  an object shows wherever it is referenced. To tell a deep copy from a shared
  reference, the objects are laid out in a store. A cell is an object or an array; a
  reference is the address of a cell. A condition is the array of its two strings, a
  filter holds its type and the reference to its array of conditions, a rule the
  reference to its array of filters and its value, a flag its name, its stage and the
  reference to its array of rules.
\<close>

type_synonym addr = nat

datatype cell =
    ConditionCell string string
  | ConditionsCell "addr list"
  | FilterCell PlatformParameterFilterType addr
  | FiltersCell "addr list"
  | RuleCell addr bool
  | RulesCell "addr list"
  | ParameterCell string string addr

type_synonym store = "cell list"

definition lookup :: "store \<Rightarrow> addr \<Rightarrow> cell option" where
  "lookup s a = (if a < length s then Some (s ! a) else None)"

text \<open>A new object gets the next free address.\<close>

definition alloc :: "store \<Rightarrow> cell \<Rightarrow> store \<times> addr" where
  "alloc s c = (s @ [c], length s)"

subsection \<open>The value of an object\<close>

text \<open>
  Following the references from an address gives the value of the object there:
  \<open>None\<close> when a reference leads to no cell or to a cell of the wrong kind.
\<close>

fun readList :: "(store \<Rightarrow> addr \<Rightarrow> 'v option) \<Rightarrow> store \<Rightarrow> addr list \<Rightarrow> 'v list option" where
  "readList rd s [] = Some []"
| "readList rd s (a # as) =
     (case rd s a of
        None \<Rightarrow> None
      | Some v \<Rightarrow> (case readList rd s as of None \<Rightarrow> None | Some vs \<Rightarrow> Some (v # vs)))"

definition readCondition :: "store \<Rightarrow> addr \<Rightarrow> condition option" where
  "readCondition s a =
     (case lookup s a of Some (ConditionCell operator operand) \<Rightarrow> Some (operator, operand)
      | _ \<Rightarrow> None)"

definition readConditions :: "store \<Rightarrow> addr \<Rightarrow> condition list option" where
  "readConditions s a =
     (case lookup s a of Some (ConditionsCell refs) \<Rightarrow> readList readCondition s refs
      | _ \<Rightarrow> None)"

definition readFilter :: "store \<Rightarrow> addr \<Rightarrow> PlatformParameterFilter option" where
  "readFilter s a =
     (case lookup s a of
        Some (FilterCell t c) \<Rightarrow>
          (case readConditions s c of None \<Rightarrow> None
           | Some cs \<Rightarrow> Some \<lparr>type = t, conditions = cs\<rparr>)
      | _ \<Rightarrow> None)"

definition readFilters :: "store \<Rightarrow> addr \<Rightarrow> PlatformParameterFilter list option" where
  "readFilters s a =
     (case lookup s a of Some (FiltersCell refs) \<Rightarrow> readList readFilter s refs
      | _ \<Rightarrow> None)"

definition readRule :: "store \<Rightarrow> addr \<Rightarrow> PlatformParameterRule option" where
  "readRule s a =
     (case lookup s a of
        Some (RuleCell f v) \<Rightarrow>
          (case readFilters s f of None \<Rightarrow> None
           | Some fs \<Rightarrow> Some \<lparr>filters = fs, valueWhenMatched = v\<rparr>)
      | _ \<Rightarrow> None)"

definition readRules :: "store \<Rightarrow> addr \<Rightarrow> PlatformParameterRule list option" where
  "readRules s a =
     (case lookup s a of Some (RulesCell refs) \<Rightarrow> readList readRule s refs
      | _ \<Rightarrow> None)"

definition readParameter :: "store \<Rightarrow> addr \<Rightarrow> PlatformParameter option" where
  "readParameter s a =
     (case lookup s a of
        Some (ParameterCell n st r) \<Rightarrow>
          (case readRules s r of None \<Rightarrow> None
           | Some rs \<Rightarrow> Some \<lparr>name = n, featureStage = st, rules = rs\<rparr>)
      | _ \<Rightarrow> None)"

subsection \<open>The cells of an object\<close>

text \<open>The addresses of the cells that make up an object: its own and those below it.\<close>

definition cellsList :: "(store \<Rightarrow> addr \<Rightarrow> addr set) \<Rightarrow> store \<Rightarrow> addr list \<Rightarrow> addr set" where
  "cellsList cells s refs = (\<Union>a \<in> set refs. cells s a)"

definition cellsCondition :: "store \<Rightarrow> addr \<Rightarrow> addr set" where
  "cellsCondition s a = {a}"

definition cellsConditions :: "store \<Rightarrow> addr \<Rightarrow> addr set" where
  "cellsConditions s a =
     insert a (case lookup s a of Some (ConditionsCell refs) \<Rightarrow> cellsList cellsCondition s refs
               | _ \<Rightarrow> {})"

definition cellsFilter :: "store \<Rightarrow> addr \<Rightarrow> addr set" where
  "cellsFilter s a =
     insert a (case lookup s a of Some (FilterCell t c) \<Rightarrow> cellsConditions s c | _ \<Rightarrow> {})"

definition cellsFilters :: "store \<Rightarrow> addr \<Rightarrow> addr set" where
  "cellsFilters s a =
     insert a (case lookup s a of Some (FiltersCell refs) \<Rightarrow> cellsList cellsFilter s refs
               | _ \<Rightarrow> {})"

definition cellsRule :: "store \<Rightarrow> addr \<Rightarrow> addr set" where
  "cellsRule s a =
     insert a (case lookup s a of Some (RuleCell f v) \<Rightarrow> cellsFilters s f | _ \<Rightarrow> {})"

definition cellsRules :: "store \<Rightarrow> addr \<Rightarrow> addr set" where
  "cellsRules s a =
     insert a (case lookup s a of Some (RulesCell refs) \<Rightarrow> cellsList cellsRule s refs
               | _ \<Rightarrow> {})"

definition cellsParameter :: "store \<Rightarrow> addr \<Rightarrow> addr set" where
  "cellsParameter s a =
     insert a (case lookup s a of Some (ParameterCell n st r) \<Rightarrow> cellsRules s r | _ \<Rightarrow> {})"

subsection \<open>Deep copies\<close>

text \<open>
  \<^verbatim>\<open>cloneDeep\<close> (lodash) copies an object and, recursively, every object and array it
  references; the result is the reference to the copy. The copy of a sequence of
  references copies one element after the other.
\<close>

fun cloneDeepList ::
    "(store \<Rightarrow> addr \<Rightarrow> (store \<times> addr) option) \<Rightarrow> store \<Rightarrow> addr list \<Rightarrow> (store \<times> addr list) option" where
  "cloneDeepList clone s [] = Some (s, [])"
| "cloneDeepList clone s (a # as) =
     (case clone s a of
        None \<Rightarrow> None
      | Some (s1, a1) \<Rightarrow>
          (case cloneDeepList clone s1 as of
             None \<Rightarrow> None
           | Some (s2, as1) \<Rightarrow> Some (s2, a1 # as1)))"

definition cloneDeepCondition :: "store \<Rightarrow> addr \<Rightarrow> (store \<times> addr) option" where
  "cloneDeepCondition s a =
     (case lookup s a of
        Some (ConditionCell operator operand) \<Rightarrow> Some (alloc s (ConditionCell operator operand))
      | _ \<Rightarrow> None)"

definition cloneDeepConditions :: "store \<Rightarrow> addr \<Rightarrow> (store \<times> addr) option" where
  "cloneDeepConditions s a =
     (case lookup s a of
        Some (ConditionsCell refs) \<Rightarrow>
          (case cloneDeepList cloneDeepCondition s refs of
             None \<Rightarrow> None
           | Some (s1, refs1) \<Rightarrow> Some (alloc s1 (ConditionsCell refs1)))
      | _ \<Rightarrow> None)"

definition cloneDeepFilter :: "store \<Rightarrow> addr \<Rightarrow> (store \<times> addr) option" where
  "cloneDeepFilter s a =
     (case lookup s a of
        Some (FilterCell t c) \<Rightarrow>
          (case cloneDeepConditions s c of
             None \<Rightarrow> None
           | Some (s1, c1) \<Rightarrow> Some (alloc s1 (FilterCell t c1)))
      | _ \<Rightarrow> None)"

definition cloneDeepFilters :: "store \<Rightarrow> addr \<Rightarrow> (store \<times> addr) option" where
  "cloneDeepFilters s a =
     (case lookup s a of
        Some (FiltersCell refs) \<Rightarrow>
          (case cloneDeepList cloneDeepFilter s refs of
             None \<Rightarrow> None
           | Some (s1, refs1) \<Rightarrow> Some (alloc s1 (FiltersCell refs1)))
      | _ \<Rightarrow> None)"

definition cloneDeepRule :: "store \<Rightarrow> addr \<Rightarrow> (store \<times> addr) option" where
  "cloneDeepRule s a =
     (case lookup s a of
        Some (RuleCell f v) \<Rightarrow>
          (case cloneDeepFilters s f of
             None \<Rightarrow> None
           | Some (s1, f1) \<Rightarrow> Some (alloc s1 (RuleCell f1 v)))
      | _ \<Rightarrow> None)"

definition cloneDeepRules :: "store \<Rightarrow> addr \<Rightarrow> (store \<times> addr) option" where
  "cloneDeepRules s a =
     (case lookup s a of
        Some (RulesCell refs) \<Rightarrow>
          (case cloneDeepList cloneDeepRule s refs of
             None \<Rightarrow> None
           | Some (s1, refs1) \<Rightarrow> Some (alloc s1 (RulesCell refs1)))
      | _ \<Rightarrow> None)"

definition cloneDeepParameter :: "store \<Rightarrow> addr \<Rightarrow> (store \<times> addr) option" where
  "cloneDeepParameter s a =
     (case lookup s a of
        Some (ParameterCell n st r) \<Rightarrow>
          (case cloneDeepRules s r of
             None \<Rightarrow> None
           | Some (s1, r1) \<Rightarrow> Some (alloc s1 (ParameterCell n st r1)))
      | _ \<Rightarrow> None)"

text \<open>
  What it means that a way of reading objects and a way of copying them fit the store.
  Reading looks only at the cells of the object, and these are cells of the kinds \<open>K\<close>;
  a deep copy leaves every cell that was there as it is, reads as the value of its
  original, and is made of new cells only.
\<close>

definition extends :: "store \<Rightarrow> store \<Rightarrow> bool" where
  "extends s s1 = prefix s s1"

definition readsOwnCells ::
    "(cell \<Rightarrow> bool) \<Rightarrow> (store \<Rightarrow> 'r \<Rightarrow> 'v option) \<Rightarrow> (store \<Rightarrow> 'r \<Rightarrow> addr set) \<Rightarrow> bool" where
  "readsOwnCells K rd cells =
     (\<forall>s r v. rd s r = Some v \<longrightarrow>
        (\<forall>x \<in> cells s r. \<exists>c. lookup s x = Some c \<and> K c) \<and>
        (\<forall>s1. (\<forall>x \<in> cells s r. lookup s1 x = lookup s x) \<longrightarrow>
              rd s1 r = Some v \<and> cells s1 r = cells s r))"

definition copiesDeeply ::
    "(store \<Rightarrow> 'r \<Rightarrow> (store \<times> 'r) option) \<Rightarrow> (store \<Rightarrow> 'r \<Rightarrow> 'v option) \<Rightarrow>
     (store \<Rightarrow> 'r \<Rightarrow> addr set) \<Rightarrow> bool" where
  "copiesDeeply clone rd cells =
     (\<forall>s r v. rd s r = Some v \<longrightarrow>
        (\<exists>s1 r1. clone s r = Some (s1, r1) \<and> extends s s1 \<and> rd s1 r1 = Some v \<and>
                 (\<forall>x \<in> cells s1 r1. length s \<le> x)))"

text \<open>The cells a rule is made of: neither an array of rules nor a flag.\<close>

definition belowRules :: "cell \<Rightarrow> bool" where
  "belowRules c = (case c of RulesCell refs \<Rightarrow> False | ParameterCell n st r \<Rightarrow> False | _ \<Rightarrow> True)"

subsection \<open>Adding a rule, on objects\<close>

text \<open>
  \<^verbatim>\<open>feature.rules.unshift(cloneDeep(this.defaultNewRule))\<close> and its counterpart with
  \<^verbatim>\<open>push\<close>: the template is copied and the reference to the copy is put into the array
  of rules of the flag, which is changed in place. The first argument is the reference
  the component holds to its template.
\<close>

definition addNewRuleToTop_store :: "addr \<Rightarrow> store \<Rightarrow> addr \<Rightarrow> store option" where
  "addNewRuleToTop_store defaultNewRuleRef s feature =
     (case lookup s feature of
        Some (ParameterCell n st rulesRef) \<Rightarrow>
          (case cloneDeepRule s defaultNewRuleRef of
             None \<Rightarrow> None
           | Some (s1, rule) \<Rightarrow>
               (case lookup s1 rulesRef of
                  Some (RulesCell refs) \<Rightarrow> Some (s1[rulesRef := RulesCell (rule # refs)])
                | _ \<Rightarrow> None))
      | _ \<Rightarrow> None)"

definition addNewRuleToBottom_store :: "addr \<Rightarrow> store \<Rightarrow> addr \<Rightarrow> store option" where
  "addNewRuleToBottom_store defaultNewRuleRef s feature =
     (case lookup s feature of
        Some (ParameterCell n st rulesRef) \<Rightarrow>
          (case cloneDeepRule s defaultNewRuleRef of
             None \<Rightarrow> None
           | Some (s1, rule) \<Rightarrow>
               (case lookup s1 rulesRef of
                  Some (RulesCell refs) \<Rightarrow> Some (s1[rulesRef := RulesCell (refs @ [rule])])
                | _ \<Rightarrow> None))
      | _ \<Rightarrow> None)"

text \<open>The references to the rules of a flag, in the order of its array.\<close>

definition ruleRefs :: "store \<Rightarrow> addr \<Rightarrow> addr list" where
  "ruleRefs s feature =
     (case lookup s feature of
        Some (ParameterCell n st rulesRef) \<Rightarrow>
          (case lookup s rulesRef of Some (RulesCell refs) \<Rightarrow> refs | _ \<Rightarrow> [])
      | _ \<Rightarrow> [])"

text \<open>
  The rule at \<open>rule\<close> in the store \<open>s1\<close> is a copy of the template that shares nothing
  with the objects of the earlier store \<open>s\<close>: it has the value of the template, all its
  cells are new, writing to any of its cells changes no rule that was there in \<open>s\<close>
  (the template and the rules inserted before are among them), and writing to any cell
  that was there in \<open>s\<close> does not change it.
\<close>

definition freshDefaultRule :: "store \<Rightarrow> store \<Rightarrow> addr \<Rightarrow> bool" where
  "freshDefaultRule s s1 rule =
     (readRule s1 rule = Some defaultNewRule \<and>
      (\<forall>x \<in> cellsRule s1 rule. length s \<le> x) \<and>
      (\<forall>q v x c. readRule s q = Some v \<and> x \<in> cellsRule s1 rule \<longrightarrow>
                  readRule (s1[x := c]) q = Some v) \<and>
      (\<forall>x c. x < length s \<longrightarrow> readRule (s1[x := c]) rule = Some defaultNewRule))"

subsection \<open>Saving and reverting, on objects\<close>

text \<open>
  The part of the component that holds references: the store, the backup map from the
  name of a flag to the reference of its backup (\<^verbatim>\<open>featureFlagNameToBackupMap\<close>), and the
  trace of requests and status messages.
\<close>

record component_store =
  heap :: store
  backupRefs :: "string \<rightharpoonup> addr"
  emitted :: "event list"

text \<open>The backup map as values: each name with the value of the backup it refers to.\<close>

definition readBackups :: "store \<Rightarrow> (string \<rightharpoonup> addr) \<Rightarrow> (string \<rightharpoonup> PlatformParameter)" where
  "readBackups s refs = (\<lambda>n. case refs n of None \<Rightarrow> None | Some b \<Rightarrow> readParameter s b)"

text \<open>
  \<^verbatim>\<open>updateFeatureFlag\<close> on objects, given how the request ends. The request carries the
  name and the rules of the flag as they are read from the store. When it resolves,
  \<^verbatim>\<open>this.featureFlagNameToBackupMap.set(feature.name, cloneDeep(feature))\<close> copies the flag
  and stores the reference to the copy. The result is \<open>None\<close> when a reference of the
  flag leads to no cell or to a cell of the wrong kind.
\<close>

definition updateFeatureFlag_store ::
    "api_outcome \<Rightarrow> component_store \<Rightarrow> addr \<Rightarrow> string \<Rightarrow>
     (error \<times> component_store + component_store) option" where
  "updateFeatureFlag_store outcome this feature commitMessage =
     (case readParameter (heap this) feature of
        None \<Rightarrow> None
      | Some F \<Rightarrow>
          (let this1 = this\<lparr>emitted := emitted this @
                        [UpdateRequest (name F) commitMessage (rules F)]\<rparr>
           in case outcome of
                Resolved \<Rightarrow>
                  (case cloneDeepParameter (heap this1) feature of
                     None \<Rightarrow> None
                   | Some (s1, copy) \<Rightarrow>
                       Some (Inr (this1\<lparr>heap := s1,
                                        backupRefs := (backupRefs this1)(name F \<mapsto> copy),
                                        emitted := emitted this1 @
                                          [StatusMessage ''Saved successfully.'']\<rparr>)))
              | Rejected (HttpErrorResponse body) \<Rightarrow>
                  (case body of
                     Some (ErrorBody (Some message)) \<Rightarrow>
                       if message \<noteq> [] then
                         Some (Inr (this1\<lparr>emitted := emitted this1 @
                                      [StatusMessage (''Update failed: '' @ message)]\<rparr>))
                       else
                         Some (Inr (this1\<lparr>emitted := emitted this1 @
                                      [StatusMessage ''Update failed.'']\<rparr>))
                   | _ \<Rightarrow>
                       Some (Inr (this1\<lparr>emitted := emitted this1 @
                                    [StatusMessage ''Update failed.'']\<rparr>)))
              | Rejected OtherRejection \<Rightarrow>
                  Some (Inl (Error ''Unexpected error response.'', this1))))"

text \<open>
  \<^verbatim>\<open>clearChanges\<close> on objects: with a backup for the name of the flag,
  \<^verbatim>\<open>featureFlag.rules = cloneDeep(backup.rules)\<close> copies the array of rules of the backup
  and writes the reference to the copy into the flag.
\<close>

definition clearChanges_store :: "bool \<Rightarrow> component_store \<Rightarrow> addr \<Rightarrow> component_store option" where
  "clearChanges_store confirmed this featureFlag =
     (if \<not> confirmed then Some this
      else case lookup (heap this) featureFlag of
             Some (ParameterCell n st r) \<Rightarrow>
               (case backupRefs this n of
                  None \<Rightarrow> Some this
                | Some backup \<Rightarrow>
                    (case lookup (heap this) backup of
                       Some (ParameterCell bn bst br) \<Rightarrow>
                         (case cloneDeepRules (heap this) br of
                            None \<Rightarrow> None
                          | Some (s1, r1) \<Rightarrow>
                              Some (this\<lparr>heap := s1[featureFlag := ParameterCell n st r1]\<rparr>))
                     | _ \<Rightarrow> None))
           | _ \<Rightarrow> None)"

text \<open>The cells below a flag: any cell but a flag.\<close>

definition belowParameter :: "cell \<Rightarrow> bool" where
  "belowParameter c = (case c of ParameterCell n st r \<Rightarrow> False | _ \<Rightarrow> True)"

section \<open>Deep comparison is structural equality\<close>

lemma isEqualList_iff:
  "(\<And>x y. x \<in> set xs \<Longrightarrow> eq x y = (x = y)) \<Longrightarrow> isEqualList eq xs ys = (xs = ys)"
  by (induction eq xs ys rule: isEqualList.induct) auto

lemma isEqualCondition_iff: "isEqualCondition c d = (c = d)"
  by (auto simp: isEqualCondition_def prod_eq_iff)

lemma isEqualFilter_iff: "isEqualFilter f g = (f = g)"
  by (auto simp: isEqualFilter_def isEqualList_iff isEqualCondition_iff)

lemma isEqualRule_iff: "isEqualRule r s = (r = s)"
  by (auto simp: isEqualRule_def isEqualList_iff isEqualFilter_iff)

lemma isEqualRules_iff: "isEqualRules rs ss = (rs = ss)"
  by (simp add: isEqualRules_def isEqualList_iff isEqualRule_iff)

section \<open>The validator on flags without and with duplicates\<close>

lemma findIndex_None: "findIndex p xs = None \<longleftrightarrow> (\<forall>x \<in> set xs. \<not> p x)"
  by (induction xs) auto

lemma findIndex_first:
  "\<forall>x \<in> set xs. \<not> p x \<Longrightarrow> p y \<Longrightarrow> findIndex p (xs @ y # ys) = Some (length xs)"
  by (induction xs) auto

lemma validateConditions_distinct:
  "distinct (seen @ cs) \<Longrightarrow> validateConditions r f seen i cs = []"
proof (induction cs arbitrary: seen i)
  case Nil
  then show ?case by simp
next
  case (Cons c cs)
  have "findIndex (\<lambda>s. isEqualCondition s c) seen = None"
    using Cons.prems by (auto simp: findIndex_None isEqualCondition_iff)
  moreover have "distinct ((seen @ [c]) @ cs)"
    using Cons.prems by auto
  ultimately show ?case
    using Cons.IH by simp
qed

lemma validateFilters_distinct:
  "distinct (seen @ fs) \<Longrightarrow> \<forall>f \<in> set fs. distinct (conditions f) \<Longrightarrow>
   validateFilters r seen i fs = []"
proof (induction fs arbitrary: seen i)
  case Nil
  then show ?case by simp
next
  case (Cons f fs)
  have "findIndex (\<lambda>s. isEqualFilter s f) seen = None"
    using Cons.prems by (auto simp: findIndex_None isEqualFilter_iff)
  moreover have "distinct ((seen @ [f]) @ fs)"
    using Cons.prems by auto
  moreover have "validateConditions r i [] 0 (conditions f) = []"
    using Cons.prems by (simp add: validateConditions_distinct)
  ultimately show ?case
    using Cons.IH Cons.prems by simp
qed

text \<open>
  Rules that differ from each other and from the rules seen, and have no duplicates
  below them, are passed without an issue: all of them end up on the seen array.
\<close>

lemma validateRules_append:
  "distinct (seen @ xs) \<Longrightarrow> \<forall>r \<in> set xs. noDuplicateSiblings r \<Longrightarrow>
   validateRules seen i (xs @ rest) = validateRules (seen @ xs) (i + length xs) rest"
proof (induction xs arbitrary: seen i)
  case Nil
  then show ?case by simp
next
  case (Cons x xs)
  have "findIndex (\<lambda>s. isEqualRule s x) seen = None"
    using Cons.prems by (auto simp: findIndex_None isEqualRule_iff)
  moreover have "distinct ((seen @ [x]) @ xs)"
    using Cons.prems by auto
  moreover have "validateFilters i [] 0 (filters x) = []"
    using Cons.prems by (simp add: validateFilters_distinct noDuplicateSiblings_def)
  ultimately show ?case
    using Cons.IH[of "seen @ [x]" "i + 1"] Cons.prems by simp
qed

lemma validateRules_distinct:
  "distinct (seen @ xs) \<Longrightarrow> \<forall>r \<in> set xs. noDuplicateSiblings r \<Longrightarrow>
   validateRules seen i xs = []"
  using validateRules_append[of seen xs i "[]"] by simp

text \<open>A rule that is on the seen array is reported and leaves the seen array as it is.\<close>

lemma validateRules_seen:
  assumes "r \<notin> set pre"
  shows "validateRules (pre @ r # post) i (r # rest) =
         ruleIssue (length pre) i # validateRules (pre @ r # post) (i + 1) rest"
proof -
  have "findIndex (\<lambda>s. isEqualRule s r) (pre @ r # post) = Some (length pre)"
    using assms by (intro findIndex_first) (auto simp: isEqualRule_iff)
  then show ?thesis by simp
qed

text \<open>
  C8. A flag whose rules are pairwise distinct, with pairwise distinct filters in every
  rule and pairwise distinct conditions in every filter, has no issue. The validator
  is a function of the flag to the list of issues: it has no other result, so the flag
  it is given is left as it is.
\<close>

theorem validateFeatureFlag_no_duplicates:
  assumes "distinct (rules feature)"
    and "\<forall>r \<in> set (rules feature). noDuplicateSiblings r"
  shows "validateFeatureFlag feature = []"
  using assms validateRules_distinct[of "[]" "rules feature" 0]
  by (simp add: validateFeatureFlag_def)

theorem validateFeatureFlag_no_duplicates_witness:
  "validateFeatureFlag
     \<lparr>name = ''Foo'', featureStage = ''dev'',
      rules = [\<lparr>filters = [\<lparr>type = PlatformType, conditions = [(''='', ''Web''), (''='', ''Android'')]\<rparr>,
                          \<lparr>type = AppVersion, conditions = [(''>'', ''1.0.0'')]\<rparr>],
                valueWhenMatched = True\<rparr>,
               \<lparr>filters = [\<lparr>type = PlatformType, conditions = [(''='', ''Web'')]\<rparr>],
                valueWhenMatched = False\<rparr>]\<rparr> = []"
  by (rule validateFeatureFlag_no_duplicates) (simp_all add: noDuplicateSiblings_def)

text \<open>
  C1. Two identical rules at the 1-based positions \<open>i = length xs + 1\<close> and
  \<open>j = length xs + length ys + 2\<close>, among rules that are otherwise pairwise distinct
  and have no duplicate filters or conditions: the validator returns the one issue
  that names \<open>i\<close> and \<open>j\<close>, and nothing about the filters or conditions of the repeated
  rule. The rule stays on the seen array once, at its first position: a third copy at
  position \<open>k = length xs + length ys + length zs + 3\<close> is reported against \<open>i\<close>.
\<close>

theorem validateFeatureFlag_identical_rules:
  assumes "distinct (xs @ r # ys @ zs @ ws)"
    and "\<forall>q \<in> set (xs @ r # ys @ zs @ ws). noDuplicateSiblings q"
  shows "validateFeatureFlag (feature\<lparr>rules := xs @ r # ys @ r # zs\<rparr>) =
           [''The '' @ numberToString (length xs + 1) @ ''-th & '' @
            numberToString (length xs + length ys + 2) @ ''-th rules are identical.''] \<and>
         validateFeatureFlag (feature\<lparr>rules := xs @ r # ys @ r # zs @ r # ws\<rparr>) =
           [''The '' @ numberToString (length xs + 1) @ ''-th & '' @
            numberToString (length xs + length ys + 2) @ ''-th rules are identical.'',
            ''The '' @ numberToString (length xs + 1) @ ''-th & '' @
            numberToString (length xs + length ys + length zs + 3) @ ''-th rules are identical.'']"
proof -
  let ?seen = "xs @ r # ys"
  have d1: "distinct ([] @ ?seen)" and n1: "\<forall>q \<in> set ?seen. noDuplicateSiblings q"
    using assms by auto
  have d2: "distinct (?seen @ zs)" and n2: "\<forall>q \<in> set zs. noDuplicateSiblings q"
    using assms by auto
  have d3: "distinct ((?seen @ zs) @ ws)" and n3: "\<forall>q \<in> set ws. noDuplicateSiblings q"
    using assms by auto
  have r: "r \<notin> set xs"
    using assms by auto
  have start: "validateRules [] 0 (?seen @ rest) = validateRules ?seen (length xs + length ys + 1) rest"
    for rest
    using validateRules_append[OF d1 n1, of 0 rest] by simp
  have second: "validateRules ?seen (length xs + length ys + 1) (r # rest) =
      ruleIssue (length xs) (length xs + length ys + 1) #
      validateRules ?seen (length xs + length ys + 2) rest" for rest
    using validateRules_seen[OF r, of ys "length xs + length ys + 1" rest]
    by (simp del: validateRules.simps)
  have two: "validateRules [] 0 (?seen @ r # zs) = [ruleIssue (length xs) (length xs + length ys + 1)]"
    using validateRules_distinct[OF d2 n2] by (simp only: start second)
  have middle: "validateRules ?seen (length xs + length ys + 2) (zs @ r # ws) =
      validateRules (?seen @ zs) (length xs + length ys + length zs + 2) (r # ws)"
    using validateRules_append[OF d2 n2, of "length xs + length ys + 2" "r # ws"]
    by (simp add: add_ac)
  have third: "validateRules (?seen @ zs) (length xs + length ys + length zs + 2) (r # ws) =
      ruleIssue (length xs) (length xs + length ys + length zs + 2) #
      validateRules (?seen @ zs) (length xs + length ys + length zs + 3) ws"
    using validateRules_seen[OF r, of "ys @ zs" "length xs + length ys + length zs + 2" ws]
    by (simp add: eval_nat_numeral del: validateRules.simps)
  have three: "validateRules [] 0 (?seen @ r # zs @ r # ws) =
      [ruleIssue (length xs) (length xs + length ys + 1),
       ruleIssue (length xs) (length xs + length ys + length zs + 2)]"
    using validateRules_distinct[OF d3 n3] by (simp only: start second middle third)
  show ?thesis
    using two three by (simp add: validateFeatureFlag_def ruleIssue_def eval_nat_numeral)
qed

theorem validateFeatureFlag_identical_rules_witness:
  "validateFeatureFlag
     \<lparr>name = ''Foo'', featureStage = ''dev'',
      rules = [\<lparr>filters = [], valueWhenMatched = True\<rparr>,
               defaultNewRule,
               \<lparr>filters = [], valueWhenMatched = False\<rparr>,
               defaultNewRule]\<rparr> =
     [''The 2-th & 4-th rules are identical.''] \<and>
   validateFeatureFlag
     \<lparr>name = ''Foo'', featureStage = ''dev'',
      rules = [\<lparr>filters = [], valueWhenMatched = True\<rparr>,
               defaultNewRule,
               \<lparr>filters = [], valueWhenMatched = False\<rparr>,
               defaultNewRule,
               defaultNewRule]\<rparr> =
     [''The 2-th & 4-th rules are identical.'', ''The 2-th & 5-th rules are identical.'']"
  using validateFeatureFlag_identical_rules[of
      "[\<lparr>filters = [], valueWhenMatched = True\<rparr>]" defaultNewRule
      "[\<lparr>filters = [], valueWhenMatched = False\<rparr>]" "[]" "[]"
      "\<lparr>name = ''Foo'', featureStage = ''dev'', rules = []\<rparr>"]
  by (simp add: noDuplicateSiblings_def defaultNewRule_def defaultNewFilter_def
      numberToString.simps digit_def)

section \<open>Server stages\<close>

text \<open>
  C7. On a dev server every flag is valid; on a test server exactly the flags staged
  test or prod; on a prod server exactly the flags staged prod. The result is a function
  of the server stage and the stage of the flag alone: it is the same on a component
  and a flag that agree with the given ones in these two fields only.
\<close>

theorem getFeatureValidOnCurrentServer_stages:
  "getFeatureValidOnCurrentServer (this\<lparr>serverStage := ''dev''\<rparr>) feature = True \<and>
   getFeatureValidOnCurrentServer (this\<lparr>serverStage := ''test''\<rparr>) feature =
     (featureStage feature = ''test'' \<or> featureStage feature = ''prod'') \<and>
   getFeatureValidOnCurrentServer (this\<lparr>serverStage := ''prod''\<rparr>) feature =
     (featureStage feature = ''prod'') \<and>
   getFeatureValidOnCurrentServer this feature =
     getFeatureValidOnCurrentServer
       \<lparr>serverStage = serverStage this, featureFlagNameToBackupMap = Map.empty,
        featureFlags = [], events = []\<rparr>
       \<lparr>name = [], featureStage = featureStage feature, rules = []\<rparr>"
  by (simp add: getFeatureValidOnCurrentServer_def DEV_SERVER_STAGE_def TEST_SERVER_STAGE_def
      PROD_SERVER_STAGE_def)

section \<open>Moving a rule\<close>

lemma arrayGet_append: "arrayGet (pre @ x # post) (int (length pre)) = Some x"
  by (simp add: arrayGet_def)

lemma splice_remove_append: "spliceArray (pre @ x # post) (int (length pre)) 1 [] = pre @ post"
  by (simp add: spliceArray_def Let_def nat_add_distrib)

lemma splice_insert_append: "spliceArray (pre @ post) (int (length pre)) 0 [x] = pre @ x # post"
  by (simp add: spliceArray_def Let_def)

text \<open>
  C6. Among the rules \<open>pre @ a # b # post\<close>, moving \<open>b\<close> (at index \<open>length pre + 1\<close>: any
  index from 1 to \<open>n - 1\<close>) up, or moving \<open>a\<close> (at index \<open>length pre\<close>: any index from
  0 to \<open>n - 2\<close>) down, swaps the two and leaves the rules before and after them alone.
\<close>

theorem moveRule_interior:
  "moveRuleUp (feature\<lparr>rules := pre @ a # b # post\<rparr>) (int (length pre) + 1) =
     Inr (feature\<lparr>rules := pre @ b # a # post\<rparr>) \<and>
   moveRuleDown (feature\<lparr>rules := pre @ a # b # post\<rparr>) (int (length pre)) =
     Inr (feature\<lparr>rules := pre @ b # a # post\<rparr>)"
proof -
  have get_b: "arrayGet (pre @ a # b # post) (int (length pre) + 1) = Some b"
    using arrayGet_append[of "pre @ [a]" b post] by (simp add: add.commute)
  have rem_b: "spliceArray (pre @ a # b # post) (int (length pre) + 1) 1 [] = pre @ a # post"
    using splice_remove_append[of "pre @ [a]" b post] by (simp add: add.commute)
  have ins_b: "spliceArray (pre @ a # post) (int (length pre)) 0 [b] = pre @ b # a # post"
    using splice_insert_append[of pre "a # post" b] by simp
  have get_a: "arrayGet (pre @ a # b # post) (int (length pre)) = Some a"
    by (rule arrayGet_append)
  have rem_a: "spliceArray (pre @ a # b # post) (int (length pre)) 1 [] = pre @ b # post"
    by (rule splice_remove_append)
  have ins_a: "spliceArray (pre @ b # post) (int (length pre) + 1) 0 [a] = pre @ b # a # post"
    using splice_insert_append[of "pre @ [b]" post a] by (simp add: add.commute)
  show ?thesis
    by (simp add: moveRuleUp_def moveRuleDown_def removeRule_def get_b rem_b ins_b get_a rem_a ins_a)
qed

lemma splice_insert_neg: "spliceArray (mid @ [l]) (- 1) 0 [x] = mid @ [x, l]"
  by (simp add: spliceArray_def Let_def)

lemma splice_insert_beyond: "spliceArray xs (int (length xs) + 1) 0 [x] = xs @ [x]"
  by (simp add: spliceArray_def Let_def)

text \<open>
  C9. Moving the last rule down changes nothing. Moving the first of at least two rules
  up removes it and inserts it at index -1, that is before the last of the remaining
  rules: \<open>r0 # mid @ [rlast]\<close> becomes \<open>mid @ [r0, rlast]\<close>, which for two rules is the
  sequence as it was.
\<close>

theorem moveRule_boundary:
  "moveRuleDown (feature\<lparr>rules := front @ [rlast]\<rparr>) (int (length (front @ [rlast])) - 1) =
     Inr (feature\<lparr>rules := front @ [rlast]\<rparr>) \<and>
   moveRuleUp (feature\<lparr>rules := r0 # mid @ [rlast]\<rparr>) 0 =
     Inr (feature\<lparr>rules := mid @ [r0, rlast]\<rparr>) \<and>
   moveRuleUp (feature\<lparr>rules := [r0, r1]\<rparr>) 0 = Inr (feature\<lparr>rules := [r0, r1]\<rparr>)"
proof -
  have get_l: "arrayGet (front @ [rlast]) (int (length front)) = Some rlast"
    by (rule arrayGet_append)
  have rem_l: "spliceArray (front @ [rlast]) (int (length front)) 1 [] = front"
    using splice_remove_append[of front rlast "[]"] by simp
  have ins_l: "spliceArray front (int (length front) + 1) 0 [rlast] = front @ [rlast]"
    by (rule splice_insert_beyond)
  have down: "moveRuleDown (feature\<lparr>rules := front @ [rlast]\<rparr>) (int (length (front @ [rlast])) - 1) =
     Inr (feature\<lparr>rules := front @ [rlast]\<rparr>)"
    by (simp add: moveRuleDown_def removeRule_def get_l rem_l ins_l)
  have get_0: "arrayGet (r0 # rest) 0 = Some r0" for rest :: "PlatformParameterRule list"
    using arrayGet_append[of "[]" r0 rest] by simp
  have rem_0: "spliceArray (r0 # rest) 0 1 [] = rest" for rest :: "PlatformParameterRule list"
    using splice_remove_append[of "[]" r0 rest] by simp
  have up: "moveRuleUp (feature\<lparr>rules := r0 # m @ [l]\<rparr>) 0 = Inr (feature\<lparr>rules := m @ [r0, l]\<rparr>)" for m l
    by (simp add: moveRuleUp_def removeRule_def get_0 rem_0 splice_insert_neg)
  show ?thesis
    using down up[of mid rlast] up[of "[]" r1] by simp
qed

section \<open>Reading and copying objects\<close>

lemma lookup_Some_iff: "lookup s x = Some c \<longleftrightarrow> x < length s \<and> s ! x = c"
  by (auto simp: lookup_def)

lemma lookup_extends: "extends s s1 \<Longrightarrow> lookup s x = Some c \<Longrightarrow> lookup s1 x = Some c"
  by (auto simp: extends_def prefix_def lookup_def nth_append split: if_splits)

lemma extends_refl: "extends s s"
  by (simp add: extends_def)

lemma extends_trans: "extends s s1 \<Longrightarrow> extends s1 s2 \<Longrightarrow> extends s s2"
  by (auto simp: extends_def prefix_def)

lemma extends_append: "extends s (s @ cs)"
  by (simp add: extends_def)

lemma extends_length: "extends s s1 \<Longrightarrow> length s \<le> length s1"
  by (simp add: extends_def prefix_length_le)

lemma lookup_new: "lookup (s @ [c]) (length s) = Some c"
  by (simp add: lookup_def)

lemma lookup_update:
  "lookup (s[x := c]) y = (if y = x \<and> x < length s then Some c else lookup s y)"
  by (simp add: lookup_def)

lemma readsOwnCellsD:
  assumes "readsOwnCells K rd cells" and "rd s r = Some v"
  shows "\<And>x. x \<in> cells s r \<Longrightarrow> \<exists>c. lookup s x = Some c \<and> K c"
    and "\<And>s1. (\<And>x. x \<in> cells s r \<Longrightarrow> lookup s1 x = lookup s x) \<Longrightarrow>
            rd s1 r = Some v \<and> cells s1 r = cells s r"
  using assms unfolding readsOwnCells_def by blast+

lemma readsOwnCells_extends:
  assumes "readsOwnCells K rd cells" and "rd s r = Some v" and "extends s s1"
  shows "rd s1 r = Some v \<and> cells s1 r = cells s r"
proof (rule readsOwnCellsD(2)[OF assms(1,2)])
  fix x
  assume "x \<in> cells s r"
  then obtain c where "lookup s x = Some c"
    using readsOwnCellsD(1)[OF assms(1,2)] by blast
  then show "lookup s1 x = lookup s x"
    using lookup_extends[OF assms(3)] by simp
qed

lemma readsOwnCells_bound:
  assumes "readsOwnCells K rd cells" and "rd s r = Some v" and "x \<in> cells s r"
  shows "x < length s"
  using readsOwnCellsD(1)[OF assms] by (auto simp: lookup_Some_iff)

lemma readsOwnCells_update:
  assumes "readsOwnCells K rd cells" and "rd s r = Some v" and "x \<notin> cells s r"
  shows "rd (s[x := c]) r = Some v \<and> cells (s[x := c]) r = cells s r"
proof (rule readsOwnCellsD(2)[OF assms(1,2)])
  fix y
  assume "y \<in> cells s r"
  then have "y \<noteq> x"
    using assms(3) by auto
  then show "lookup (s[x := c]) y = lookup s y"
    by (simp add: lookup_update)
qed

lemma readsOwnCells_kind:
  assumes "readsOwnCells K rd cells" and "rd s r = Some v"
    and "lookup s x = Some c" and "\<not> K c"
  shows "x \<notin> cells s r"
  using readsOwnCellsD(1)[OF assms(1,2), of x] assms(3,4) by auto

lemma readsOwnCells_weaken:
  assumes "readsOwnCells K rd cells" and "\<And>c. K c \<Longrightarrow> K1 c"
  shows "readsOwnCells K1 rd cells"
  using assms unfolding readsOwnCells_def by blast

lemma readsOwnCells_list:
  assumes "readsOwnCells K rd cells"
  shows "readsOwnCells K (readList rd) (cellsList cells)"
  unfolding readsOwnCells_def
proof (intro allI impI)
  fix s refs vs
  assume "readList rd s refs = Some vs"
  then show "(\<forall>x \<in> cellsList cells s refs. \<exists>c. lookup s x = Some c \<and> K c) \<and>
        (\<forall>s1. (\<forall>x \<in> cellsList cells s refs. lookup s1 x = lookup s x) \<longrightarrow>
              readList rd s1 refs = Some vs \<and> cellsList cells s1 refs = cellsList cells s refs)"
  proof (induction refs arbitrary: vs)
    case Nil
    then show ?case by (simp add: cellsList_def)
  next
    case (Cons a refs)
    from Cons.prems obtain v ws where
      hd: "rd s a = Some v" and tl: "readList rd s refs = Some ws" and vs: "vs = v # ws"
      by (auto split: option.splits)
    note a = readsOwnCellsD[OF assms hd]
    have IH1: "\<exists>c. lookup s x = Some c \<and> K c" if "x \<in> cellsList cells s refs" for x
      using Cons.IH[OF tl] that by blast
    have IH2: "readList rd s1 refs = Some ws \<and> cellsList cells s1 refs = cellsList cells s refs"
      if "\<And>x. x \<in> cellsList cells s refs \<Longrightarrow> lookup s1 x = lookup s x" for s1
      using Cons.IH[OF tl] that by blast
    have cells: "cellsList cells s (a # refs) = cells s a \<union> cellsList cells s refs" for s
      by (simp add: cellsList_def)
    show ?case
    proof (intro conjI allI impI ballI)
      fix x
      assume "x \<in> cellsList cells s (a # refs)"
      then consider "x \<in> cells s a" | "x \<in> cellsList cells s refs"
        unfolding cells by blast
      then show "\<exists>c. lookup s x = Some c \<and> K c"
        using a(1) IH1 by cases
    next
      fix s1
      assume agree: "\<forall>x \<in> cellsList cells s (a # refs). lookup s1 x = lookup s x"
      have hd1: "rd s1 a = Some v \<and> cells s1 a = cells s a"
      proof (rule a(2))
        fix x
        assume "x \<in> cells s a"
        then show "lookup s1 x = lookup s x"
          using agree unfolding cells by blast
      qed
      have tl1: "readList rd s1 refs = Some ws \<and> cellsList cells s1 refs = cellsList cells s refs"
      proof (rule IH2)
        fix x
        assume "x \<in> cellsList cells s refs"
        then show "lookup s1 x = lookup s x"
          using agree unfolding cells by blast
      qed
      show "readList rd s1 (a # refs) = Some vs"
        using hd1 tl1 by (simp add: vs)
      show "cellsList cells s1 (a # refs) = cellsList cells s (a # refs)"
        using hd1 tl1 by (simp add: cells)
    qed
  qed
qed

lemma copiesDeeplyD:
  assumes "copiesDeeply clone rd cells" and "rd s r = Some v"
  obtains s1 r1 where "clone s r = Some (s1, r1)" and "extends s s1" and "rd s1 r1 = Some v"
    and "\<And>x. x \<in> cells s1 r1 \<Longrightarrow> length s \<le> x"
  using assms unfolding copiesDeeply_def by blast

lemma copiesDeeply_list:
  assumes own: "readsOwnCells K rd cells" and copy: "copiesDeeply clone rd cells"
  shows "copiesDeeply (cloneDeepList clone) (readList rd) (cellsList cells)"
  unfolding copiesDeeply_def
proof (intro allI impI)
  fix s refs vs
  assume "readList rd s refs = Some vs"
  then show "\<exists>s1 refs1. cloneDeepList clone s refs = Some (s1, refs1) \<and> extends s s1 \<and>
      readList rd s1 refs1 = Some vs \<and> (\<forall>x \<in> cellsList cells s1 refs1. length s \<le> x)"
  proof (induction refs arbitrary: s vs)
    case Nil
    then show ?case by (simp add: extends_refl cellsList_def)
  next
    case (Cons a refs)
    from Cons.prems obtain v ws where
      hd: "rd s a = Some v" and tl: "readList rd s refs = Some ws" and vs: "vs = v # ws"
      by (auto split: option.splits)
    from copiesDeeplyD[OF copy hd] obtain s1 a1 where
      c1: "clone s a = Some (s1, a1)" and e1: "extends s s1" and r1: "rd s1 a1 = Some v"
      and f1: "\<And>x. x \<in> cells s1 a1 \<Longrightarrow> length s \<le> x"
      by blast
    have "readList rd s1 refs = Some ws"
      using readsOwnCells_extends[OF readsOwnCells_list[OF own] tl e1] by simp
    from Cons.IH[OF this] obtain s2 refs1 where
      c2: "cloneDeepList clone s1 refs = Some (s2, refs1)" and e2: "extends s1 s2"
      and r2: "readList rd s2 refs1 = Some ws"
      and f2: "\<forall>x \<in> cellsList cells s2 refs1. length s1 \<le> x"
      by blast
    have a1: "rd s2 a1 = Some v \<and> cells s2 a1 = cells s1 a1"
      using readsOwnCells_extends[OF own r1 e2] .
    have "cloneDeepList clone s (a # refs) = Some (s2, a1 # refs1)"
      using c1 c2 by simp
    moreover have "extends s s2"
      using e1 e2 by (rule extends_trans)
    moreover have "readList rd s2 (a1 # refs1) = Some vs"
      using a1 r2 vs by simp
    moreover have "\<forall>x \<in> cellsList cells s2 (a1 # refs1). length s \<le> x"
    proof
      fix x
      assume "x \<in> cellsList cells s2 (a1 # refs1)"
      then consider "x \<in> cells s1 a1" | "x \<in> cellsList cells s2 refs1"
        using a1 by (auto simp: cellsList_def)
      then show "length s \<le> x"
      proof cases
        case 1
        then show ?thesis by (rule f1)
      next
        case 2
        then have "length s1 \<le> x"
          using f2 by blast
        then show ?thesis
          using extends_length[OF e1] by simp
      qed
    qed
    ultimately show ?case by blast
  qed
qed

text \<open>
  An object or array above others: a cell that holds the reference \<open>child c\<close> to what is
  below it and gives the value \<open>mk c w\<close> when what is below has the value \<open>w\<close>. If reading
  and copying fit below, they fit at the cell.
\<close>

lemma readsOwnCells_node:
  assumes below: "readsOwnCells K rd cells"
    and kind: "\<And>c r. child c = Some r \<Longrightarrow> K c"
    and rd1: "\<And>s a. rd1 s a =
      (case lookup s a of None \<Rightarrow> None
       | Some c \<Rightarrow> (case child c of None \<Rightarrow> None | Some r \<Rightarrow> map_option (mk c) (rd s r)))"
    and cells1: "\<And>s a. cells1 s a =
      insert a (case lookup s a of None \<Rightarrow> {}
                | Some c \<Rightarrow> (case child c of None \<Rightarrow> {} | Some r \<Rightarrow> cells s r))"
  shows "readsOwnCells K rd1 cells1"
  unfolding readsOwnCells_def
proof (intro allI impI)
  fix s a v
  assume "rd1 s a = Some v"
  then obtain c r w where cell: "lookup s a = Some c" and child: "child c = Some r"
    and w: "rd s r = Some w" and v: "v = mk c w"
    unfolding rd1 by (auto split: option.splits)
  note sub = readsOwnCellsD[OF below w]
  have cs: "cells1 s a = insert a (cells s r)"
    by (simp add: cells1 cell child)
  show "(\<forall>x \<in> cells1 s a. \<exists>c. lookup s x = Some c \<and> K c) \<and>
        (\<forall>s1. (\<forall>x \<in> cells1 s a. lookup s1 x = lookup s x) \<longrightarrow>
              rd1 s1 a = Some v \<and> cells1 s1 a = cells1 s a)"
  proof (intro conjI allI impI ballI)
    fix x
    assume "x \<in> cells1 s a"
    then consider "x = a" | "x \<in> cells s r"
      unfolding cs by blast
    then show "\<exists>c. lookup s x = Some c \<and> K c"
    proof cases
      case 1
      then show ?thesis using cell kind[OF child] by simp
    next
      case 2
      then show ?thesis by (rule sub(1))
    qed
  next
    fix s1
    assume agree: "\<forall>x \<in> cells1 s a. lookup s1 x = lookup s x"
    have cell1: "lookup s1 a = Some c"
      using agree cell unfolding cs by simp
    have sub1: "rd s1 r = Some w \<and> cells s1 r = cells s r"
    proof (rule sub(2))
      fix x
      assume "x \<in> cells s r"
      then show "lookup s1 x = lookup s x"
        using agree unfolding cs by blast
    qed
    show "rd1 s1 a = Some v"
      using cell1 sub1 by (simp add: rd1 child v)
    show "cells1 s1 a = cells1 s a"
      using cell1 sub1 by (simp add: cells1 child cell)
  qed
qed

lemma copiesDeeply_node:
  assumes below: "readsOwnCells K rd cells"
    and copy: "copiesDeeply clone rd cells"
    and rd1: "\<And>s a. rd1 s a =
      (case lookup s a of None \<Rightarrow> None
       | Some c \<Rightarrow> (case child c of None \<Rightarrow> None | Some r \<Rightarrow> map_option (mk c) (rd s r)))"
    and cells1: "\<And>s a. cells1 s a =
      insert a (case lookup s a of None \<Rightarrow> {}
                | Some c \<Rightarrow> (case child c of None \<Rightarrow> {} | Some r \<Rightarrow> cells s r))"
    and clone1: "\<And>s a. clone1 s a =
      (case lookup s a of None \<Rightarrow> None
       | Some c \<Rightarrow> (case child c of None \<Rightarrow> None
                    | Some r \<Rightarrow> (case clone s r of None \<Rightarrow> None
                                 | Some (s1, r1) \<Rightarrow> Some (alloc s1 (put c r1)))))"
    and put: "\<And>c r r1. child c = Some r \<Longrightarrow> child (put c r1) = Some r1 \<and> mk (put c r1) = mk c"
  shows "copiesDeeply clone1 rd1 cells1"
  unfolding copiesDeeply_def
proof (intro allI impI)
  fix s a v
  assume "rd1 s a = Some v"
  then obtain c r w where cell: "lookup s a = Some c" and child: "child c = Some r"
    and w: "rd s r = Some w" and v: "v = mk c w"
    unfolding rd1 by (auto split: option.splits)
  from copiesDeeplyD[OF copy w] obtain s1 r1 where
    c1: "clone s r = Some (s1, r1)" and e1: "extends s s1" and w1: "rd s1 r1 = Some w"
    and f1: "\<And>x. x \<in> cells s1 r1 \<Longrightarrow> length s \<le> x"
    by blast
  let ?s2 = "s1 @ [put c r1]"
  have new: "lookup ?s2 (length s1) = Some (put c r1)"
    by (rule lookup_new)
  have w2: "rd ?s2 r1 = Some w \<and> cells ?s2 r1 = cells s1 r1"
    using readsOwnCells_extends[OF below w1 extends_append] .
  have "clone1 s a = Some (?s2, length s1)"
    by (simp add: clone1 cell child c1 alloc_def)
  moreover have "extends s ?s2"
    using e1 extends_append by (rule extends_trans)
  moreover have "rd1 ?s2 (length s1) = Some v"
    using w2 put[OF child, of r1] by (simp add: rd1 new v)
  moreover have "\<forall>x \<in> cells1 ?s2 (length s1). length s \<le> x"
    using w2 put[OF child, of r1] f1 extends_length[OF e1] by (auto simp: cells1 new)
  ultimately show "\<exists>s1 r1. clone1 s a = Some (s1, r1) \<and> extends s s1 \<and> rd1 s1 r1 = Some v \<and>
      (\<forall>x \<in> cells1 s1 r1. length s \<le> x)"
    by blast
qed

subsection \<open>The objects of the component\<close>

lemma readsOwnCells_condition: "readsOwnCells belowRules readCondition cellsCondition"
  by (auto simp: readsOwnCells_def readCondition_def cellsCondition_def belowRules_def
      split: option.splits cell.splits)

lemma copiesDeeply_condition: "copiesDeeply cloneDeepCondition readCondition cellsCondition"
  unfolding copiesDeeply_def
proof (intro allI impI)
  fix s a v
  assume "readCondition s a = Some v"
  then obtain operator operand where
    cell: "lookup s a = Some (ConditionCell operator operand)" and v: "v = (operator, operand)"
    by (auto simp: readCondition_def split: option.splits cell.splits)
  let ?s1 = "s @ [ConditionCell operator operand]"
  have "cloneDeepCondition s a = Some (?s1, length s)"
    by (simp add: cloneDeepCondition_def cell alloc_def)
  moreover have "extends s ?s1"
    by (rule extends_append)
  moreover have "readCondition ?s1 (length s) = Some v"
    by (simp add: readCondition_def lookup_new v)
  moreover have "\<forall>x \<in> cellsCondition ?s1 (length s). length s \<le> x"
    by (simp add: cellsCondition_def)
  ultimately show "\<exists>s1 r1. cloneDeepCondition s a = Some (s1, r1) \<and> extends s s1 \<and>
      readCondition s1 r1 = Some v \<and> (\<forall>x \<in> cellsCondition s1 r1. length s \<le> x)"
    by blast
qed

lemma readsOwnCells_conditions: "readsOwnCells belowRules readConditions cellsConditions"
  by (rule readsOwnCells_node[OF readsOwnCells_list[OF readsOwnCells_condition],
        where child = "\<lambda>c. case c of ConditionsCell refs \<Rightarrow> Some refs | _ \<Rightarrow> None"
          and mk = "\<lambda>c vs. vs"])
    (auto simp: readConditions_def cellsConditions_def belowRules_def option.map_ident
      split: option.splits cell.splits)

lemma copiesDeeply_conditions: "copiesDeeply cloneDeepConditions readConditions cellsConditions"
  by (rule copiesDeeply_node[OF readsOwnCells_list[OF readsOwnCells_condition]
          copiesDeeply_list[OF readsOwnCells_condition copiesDeeply_condition],
        where child = "\<lambda>c. case c of ConditionsCell refs \<Rightarrow> Some refs | _ \<Rightarrow> None"
          and mk = "\<lambda>c vs. vs" and put = "\<lambda>c refs. ConditionsCell refs"])
    (auto simp: readConditions_def cellsConditions_def cloneDeepConditions_def option.map_ident
      split: option.splits cell.splits)

lemma readsOwnCells_filter: "readsOwnCells belowRules readFilter cellsFilter"
  by (rule readsOwnCells_node[OF readsOwnCells_conditions,
        where child = "\<lambda>c. case c of FilterCell t r \<Rightarrow> Some r | _ \<Rightarrow> None"
          and mk = "\<lambda>c cs. case c of FilterCell t r \<Rightarrow> \<lparr>type = t, conditions = cs\<rparr>"])
    (auto simp: readFilter_def cellsFilter_def belowRules_def
      split: option.splits cell.splits)

lemma copiesDeeply_filter: "copiesDeeply cloneDeepFilter readFilter cellsFilter"
  by (rule copiesDeeply_node[OF readsOwnCells_conditions copiesDeeply_conditions,
        where child = "\<lambda>c. case c of FilterCell t r \<Rightarrow> Some r | _ \<Rightarrow> None"
          and mk = "\<lambda>c cs. case c of FilterCell t r \<Rightarrow> \<lparr>type = t, conditions = cs\<rparr>"
          and put = "\<lambda>c r. case c of FilterCell t r0 \<Rightarrow> FilterCell t r"])
    (auto simp: readFilter_def cellsFilter_def cloneDeepFilter_def
      split: option.splits cell.splits)

lemma readsOwnCells_filters: "readsOwnCells belowRules readFilters cellsFilters"
  by (rule readsOwnCells_node[OF readsOwnCells_list[OF readsOwnCells_filter],
        where child = "\<lambda>c. case c of FiltersCell refs \<Rightarrow> Some refs | _ \<Rightarrow> None"
          and mk = "\<lambda>c vs. vs"])
    (auto simp: readFilters_def cellsFilters_def belowRules_def option.map_ident
      split: option.splits cell.splits)

lemma copiesDeeply_filters: "copiesDeeply cloneDeepFilters readFilters cellsFilters"
  by (rule copiesDeeply_node[OF readsOwnCells_list[OF readsOwnCells_filter]
          copiesDeeply_list[OF readsOwnCells_filter copiesDeeply_filter],
        where child = "\<lambda>c. case c of FiltersCell refs \<Rightarrow> Some refs | _ \<Rightarrow> None"
          and mk = "\<lambda>c vs. vs" and put = "\<lambda>c refs. FiltersCell refs"])
    (auto simp: readFilters_def cellsFilters_def cloneDeepFilters_def option.map_ident
      split: option.splits cell.splits)

lemma readsOwnCells_rule: "readsOwnCells belowRules readRule cellsRule"
  by (rule readsOwnCells_node[OF readsOwnCells_filters,
        where child = "\<lambda>c. case c of RuleCell r v \<Rightarrow> Some r | _ \<Rightarrow> None"
          and mk = "\<lambda>c fs. case c of RuleCell r v \<Rightarrow> \<lparr>filters = fs, valueWhenMatched = v\<rparr>"])
    (auto simp: readRule_def cellsRule_def belowRules_def
      split: option.splits cell.splits)

lemma copiesDeeply_rule: "copiesDeeply cloneDeepRule readRule cellsRule"
  by (rule copiesDeeply_node[OF readsOwnCells_filters copiesDeeply_filters,
        where child = "\<lambda>c. case c of RuleCell r v \<Rightarrow> Some r | _ \<Rightarrow> None"
          and mk = "\<lambda>c fs. case c of RuleCell r v \<Rightarrow> \<lparr>filters = fs, valueWhenMatched = v\<rparr>"
          and put = "\<lambda>c r. case c of RuleCell r0 v \<Rightarrow> RuleCell r v"])
    (auto simp: readRule_def cellsRule_def cloneDeepRule_def
      split: option.splits cell.splits)

lemma readsOwnCells_rules: "readsOwnCells (\<lambda>c. True) readRules cellsRules"
  by (rule readsOwnCells_node[OF readsOwnCells_list[OF
          readsOwnCells_weaken[OF readsOwnCells_rule]],
        where child = "\<lambda>c. case c of RulesCell refs \<Rightarrow> Some refs | _ \<Rightarrow> None"
          and mk = "\<lambda>c vs. vs"])
    (auto simp: readRules_def cellsRules_def option.map_ident
      split: option.splits cell.splits)

lemma copiesDeeply_rules: "copiesDeeply cloneDeepRules readRules cellsRules"
  by (rule copiesDeeply_node[OF readsOwnCells_list[OF readsOwnCells_rule]
          copiesDeeply_list[OF readsOwnCells_rule copiesDeeply_rule],
        where child = "\<lambda>c. case c of RulesCell refs \<Rightarrow> Some refs | _ \<Rightarrow> None"
          and mk = "\<lambda>c vs. vs" and put = "\<lambda>c refs. RulesCell refs"])
    (auto simp: readRules_def cellsRules_def cloneDeepRules_def option.map_ident
      split: option.splits cell.splits)

lemma readsOwnCells_parameter: "readsOwnCells (\<lambda>c. True) readParameter cellsParameter"
  by (rule readsOwnCells_node[OF readsOwnCells_rules,
        where child = "\<lambda>c. case c of ParameterCell n st r \<Rightarrow> Some r | _ \<Rightarrow> None"
          and mk = "\<lambda>c rs. case c of ParameterCell n st r \<Rightarrow>
                      \<lparr>name = n, featureStage = st, rules = rs\<rparr>"])
    (auto simp: readParameter_def cellsParameter_def
      split: option.splits cell.splits)

lemma copiesDeeply_parameter: "copiesDeeply cloneDeepParameter readParameter cellsParameter"
  by (rule copiesDeeply_node[OF readsOwnCells_rules copiesDeeply_rules,
        where child = "\<lambda>c. case c of ParameterCell n st r \<Rightarrow> Some r | _ \<Rightarrow> None"
          and mk = "\<lambda>c rs. case c of ParameterCell n st r \<Rightarrow>
                      \<lparr>name = n, featureStage = st, rules = rs\<rparr>"
          and put = "\<lambda>c r. case c of ParameterCell n st r0 \<Rightarrow> ParameterCell n st r"])
    (auto simp: readParameter_def cellsParameter_def cloneDeepParameter_def
      split: option.splits cell.splits)

text \<open>
  A deep copy stays apart from what was there: it is made of new cells, and writing to
  any cell that was there before the copy does not change its value.
\<close>

lemma deep_copy_apart:
  assumes own: "readsOwnCells K rd cells" and copy: "copiesDeeply clone rd cells"
    and rd: "rd s r = Some v"
  shows "\<exists>s1 r1. clone s r = Some (s1, r1) \<and> extends s s1 \<and> rd s1 r1 = Some v \<and>
           (\<forall>x \<in> cells s1 r1. length s \<le> x) \<and>
           (\<forall>x c. x < length s \<longrightarrow> rd (s1[x := c]) r1 = Some v)"
proof -
  from copiesDeeplyD[OF copy rd] obtain s1 r1 where
    c1: "clone s r = Some (s1, r1)" and e1: "extends s s1" and v1: "rd s1 r1 = Some v"
    and f1: "\<And>x. x \<in> cells s1 r1 \<Longrightarrow> length s \<le> x"
    by blast
  have "rd (s1[x := c]) r1 = Some v" if "x < length s" for x c
  proof -
    have "x \<notin> cells s1 r1"
      using f1[of x] that by auto
    then show ?thesis
      using readsOwnCells_update[OF own v1] by simp
  qed
  then show ?thesis
    using c1 e1 v1 f1 by blast
qed

lemma readsOwnCells_rules_below: "readsOwnCells belowParameter readRules cellsRules"
proof (rule readsOwnCells_node[
      where child = "\<lambda>c. case c of RulesCell refs \<Rightarrow> Some refs | _ \<Rightarrow> None"
        and mk = "\<lambda>c vs. vs" and rd = "readList readRule" and cells = "cellsList cellsRule"])
  have "readsOwnCells belowParameter readRule cellsRule"
    by (rule readsOwnCells_weaken[OF readsOwnCells_rule])
      (auto simp: belowRules_def belowParameter_def split: cell.splits)
  then show "readsOwnCells belowParameter (readList readRule) (cellsList cellsRule)"
    by (rule readsOwnCells_list)
qed (auto simp: readRules_def cellsRules_def belowParameter_def option.map_ident
      split: option.splits cell.splits)

text \<open>Writing to a new cell changes no object that was there before the store grew.\<close>

lemma earlier_object_apart:
  assumes own: "readsOwnCells K rd cells" and rd: "rd s r = Some v"
    and ext: "extends s s1" and x: "length s \<le> x"
  shows "rd (s1[x := c]) r = Some v"
proof -
  have r1: "rd s1 r = Some v" and c1: "cells s1 r = cells s r"
    using readsOwnCells_extends[OF own rd ext] by simp_all
  have "x \<notin> cells s r"
    using readsOwnCells_bound[OF own rd, of x] x by auto
  then show ?thesis
    using readsOwnCells_update[OF own r1, of x c] c1 by simp
qed

subsection \<open>Adding a rule\<close>

lemma readList_append:
  "readList rd s (as @ bs) =
     (case readList rd s as of
        None \<Rightarrow> None
      | Some vs \<Rightarrow> (case readList rd s bs of None \<Rightarrow> None | Some ws \<Rightarrow> Some (vs @ ws)))"
  by (induction as) (auto split: option.splits)

text \<open>Writing an array of rules changes no rule: no cell of a rule is such an array.\<close>

lemma rules_array_update:
  assumes own: "readsOwnCells belowRules rd cells"
    and cell: "lookup s rulesRef = Some (RulesCell refs)"
    and rd: "rd s r = Some v"
  shows "rd (s[rulesRef := c]) r = Some v \<and> cells (s[rulesRef := c]) r = cells s r"
proof (rule readsOwnCells_update[OF own rd])
  show "rulesRef \<notin> cells s r"
    using readsOwnCells_kind[OF own rd cell] by (simp add: belowRules_def)
qed

lemma addNewRule_store_steps:
  assumes rdF: "readParameter s feature = Some F"
    and rdT: "readRule s template = Some defaultNewRule"
  obtains n st rulesRef refs s1 rule where
    "lookup s feature = Some (ParameterCell n st rulesRef)"
    and "lookup s rulesRef = Some (RulesCell refs)"
    and "F = \<lparr>name = n, featureStage = st, rules = rules F\<rparr>"
    and "cloneDeepRule s template = Some (s1, rule)"
    and "lookup s1 feature = Some (ParameterCell n st rulesRef)"
    and "lookup s1 rulesRef = Some (RulesCell refs)"
    and "feature \<noteq> rulesRef"
    and "rulesRef < length s"
    and "length s \<le> length s1"
    and "readList readRule s1 refs = Some (rules F)"
    and "readRule s1 rule = Some defaultNewRule"
    and "\<And>x. x \<in> cellsRule s1 rule \<Longrightarrow> length s \<le> x"
    and "\<And>q v. readRule s q = Some v \<Longrightarrow>
           readRule s1 q = Some v \<and> cellsRule s1 q = cellsRule s q"
proof -
  from rdF obtain n st rulesRef rs where
    cellF: "lookup s feature = Some (ParameterCell n st rulesRef)"
    and rdRs: "readRules s rulesRef = Some rs"
    and F: "F = \<lparr>name = n, featureStage = st, rules = rs\<rparr>"
    by (auto simp: readParameter_def split: option.splits cell.splits)
  from rdRs obtain refs where
    cellR: "lookup s rulesRef = Some (RulesCell refs)"
    and elems: "readList readRule s refs = Some rs"
    by (auto simp: readRules_def split: option.splits cell.splits)
  from copiesDeeplyD[OF copiesDeeply_rule rdT] obtain s1 rule where
    clone: "cloneDeepRule s template = Some (s1, rule)" and ext: "extends s s1"
    and rd1: "readRule s1 rule = Some defaultNewRule"
    and fresh: "\<And>x. x \<in> cellsRule s1 rule \<Longrightarrow> length s \<le> x"
    by blast
  show thesis
  proof (rule that[of n st rulesRef refs s1 rule])
    show "lookup s feature = Some (ParameterCell n st rulesRef)" by (rule cellF)
    show "lookup s rulesRef = Some (RulesCell refs)" by (rule cellR)
    show "F = \<lparr>name = n, featureStage = st, rules = rules F\<rparr>" by (simp add: F)
    show "cloneDeepRule s template = Some (s1, rule)" by (rule clone)
    show "lookup s1 feature = Some (ParameterCell n st rulesRef)"
      using lookup_extends[OF ext cellF] .
    show "lookup s1 rulesRef = Some (RulesCell refs)"
      using lookup_extends[OF ext cellR] .
    show "feature \<noteq> rulesRef" using cellF cellR by auto
    show "rulesRef < length s" using cellR by (simp add: lookup_Some_iff)
    show "length s \<le> length s1" using ext by (rule extends_length)
    show "readList readRule s1 refs = Some (rules F)"
      using readsOwnCells_extends[OF readsOwnCells_list[OF readsOwnCells_rule] elems ext]
      by (simp add: F)
    show "readRule s1 rule = Some defaultNewRule" by (rule rd1)
    show "\<And>x. x \<in> cellsRule s1 rule \<Longrightarrow> length s \<le> x" by (rule fresh)
    show "\<And>q v. readRule s q = Some v \<Longrightarrow>
           readRule s1 q = Some v \<and> cellsRule s1 q = cellsRule s q"
      using readsOwnCells_extends[OF readsOwnCells_rule _ ext] by blast
  qed
qed

text \<open>
  The copy stays apart when its reference is written into the array of rules, whatever
  the array then holds.
\<close>

lemma freshDefaultRule_array:
  assumes cellR1: "lookup s1 rulesRef = Some (RulesCell refs)"
    and len: "length s \<le> length s1"
    and rd1: "readRule s1 rule = Some defaultNewRule"
    and fresh: "\<And>x. x \<in> cellsRule s1 rule \<Longrightarrow> length s \<le> x"
    and old: "\<And>q v. readRule s q = Some v \<Longrightarrow>
           readRule s1 q = Some v \<and> cellsRule s1 q = cellsRule s q"
  shows "freshDefaultRule s (s1[rulesRef := c]) rule"
proof -
  let ?s2 = "s1[rulesRef := c]"
  note frame = rules_array_update[OF readsOwnCells_rule cellR1]
  have rule2: "readRule ?s2 rule = Some defaultNewRule \<and> cellsRule ?s2 rule = cellsRule s1 rule"
    using frame[OF rd1] .
  have fresh2: "length s \<le> x" if "x \<in> cellsRule ?s2 rule" for x
    using that rule2 fresh by simp
  have old2: "readRule (?s2[x := d]) q = Some v"
    if q: "readRule s q = Some v" and x: "x \<in> cellsRule ?s2 rule" for q v x d
  proof -
    have q1: "readRule s1 q = Some v" and c1: "cellsRule s1 q = cellsRule s q"
      using old[OF q] by simp_all
    have q2: "readRule ?s2 q = Some v" and c2: "cellsRule ?s2 q = cellsRule s q"
      using frame[OF q1] c1 by simp_all
    have "x \<notin> cellsRule s q"
      using readsOwnCells_bound[OF readsOwnCells_rule q, of x] fresh2[OF x] by auto
    then show ?thesis
      using readsOwnCells_update[OF readsOwnCells_rule q2, of x d] c2 by simp
  qed
  have new2: "readRule (?s2[x := d]) rule = Some defaultNewRule" if "x < length s" for x d
  proof -
    have "x \<notin> cellsRule ?s2 rule"
      using fresh2[of x] that by auto
    then show ?thesis
      using readsOwnCells_update[OF readsOwnCells_rule conjunct1[OF rule2], of x d] by simp
  qed
  show ?thesis
    unfolding freshDefaultRule_def using rule2 fresh2 old2 new2 by blast
qed

text \<open>
  C5. On a flag that reads as \<open>F\<close> in the store, with the template of the component
  reading as the default rule (one filter of type PlatformType without conditions, and
  the value false), \<^verbatim>\<open>addNewRuleToTop\<close> puts the reference to a new rule before, and
  \<^verbatim>\<open>addNewRuleToBottom\<close> after, the references to the rules that were there. The flag
  then reads as \<open>F\<close> with the default rule prepended, respectively appended: the rules
  that were there keep their values and their order. The new rule is a copy that
  shares no cell with what was there, so that an edit of it changes neither the
  template nor any rule inserted before, nor does an edit of those change it.
\<close>

theorem addNewRule_fresh_deep_copy:
  assumes rdF: "readParameter s feature = Some F"
    and rdT: "readRule s template = Some defaultNewRule"
  shows "(\<exists>s1 rule. addNewRuleToTop_store template s feature = Some s1 \<and>
            ruleRefs s1 feature = rule # ruleRefs s feature \<and>
            readParameter s1 feature = Some (addNewRuleToTop F) \<and>
            freshDefaultRule s s1 rule) \<and>
         (\<exists>s1 rule. addNewRuleToBottom_store template s feature = Some s1 \<and>
            ruleRefs s1 feature = ruleRefs s feature @ [rule] \<and>
            readParameter s1 feature = Some (addNewRuleToBottom F) \<and>
            freshDefaultRule s s1 rule) \<and>
         addNewRuleToTop F = F\<lparr>rules := defaultNewRule # rules F\<rparr> \<and>
         addNewRuleToBottom F = F\<lparr>rules := rules F @ [defaultNewRule]\<rparr> \<and>
         defaultNewRule =
           \<lparr>filters = [\<lparr>type = PlatformType, conditions = []\<rparr>], valueWhenMatched = False\<rparr>"
proof -
  from addNewRule_store_steps[OF rdF rdT] obtain n st rulesRef refs s1 rule where
    cellF: "lookup s feature = Some (ParameterCell n st rulesRef)"
    and cellR: "lookup s rulesRef = Some (RulesCell refs)"
    and F: "F = \<lparr>name = n, featureStage = st, rules = rules F\<rparr>"
    and clone: "cloneDeepRule s template = Some (s1, rule)"
    and cellF1: "lookup s1 feature = Some (ParameterCell n st rulesRef)"
    and cellR1: "lookup s1 rulesRef = Some (RulesCell refs)"
    and ne: "feature \<noteq> rulesRef"
    and bound: "rulesRef < length s"
    and len: "length s \<le> length s1"
    and elems1: "readList readRule s1 refs = Some (rules F)"
    and rd1: "readRule s1 rule = Some defaultNewRule"
    and fresh: "\<And>x. x \<in> cellsRule s1 rule \<Longrightarrow> length s \<le> x"
    and old: "\<And>q v. readRule s q = Some v \<Longrightarrow>
           readRule s1 q = Some v \<and> cellsRule s1 q = cellsRule s q"
    by blast
  have inserted: "readParameter (s1[rulesRef := RulesCell refs2]) feature =
        Some \<lparr>name = n, featureStage = st, rules = rs2\<rparr> \<and>
      ruleRefs (s1[rulesRef := RulesCell refs2]) feature = refs2 \<and>
      freshDefaultRule s (s1[rulesRef := RulesCell refs2]) rule"
    if rs2: "\<And>s2. readList readRule s2 refs = Some (rules F) \<Longrightarrow>
                readRule s2 rule = Some defaultNewRule \<Longrightarrow>
                readList readRule s2 refs2 = Some rs2" for refs2 rs2
  proof -
    let ?s2 = "s1[rulesRef := RulesCell refs2]"
    have b1: "rulesRef < length s1"
      using bound len by simp
    have cellF2: "lookup ?s2 feature = Some (ParameterCell n st rulesRef)"
      using cellF1 ne by (simp add: lookup_update)
    have cellR2: "lookup ?s2 rulesRef = Some (RulesCell refs2)"
      using b1 by (simp add: lookup_update)
    have "readList readRule ?s2 refs = Some (rules F)"
      using rules_array_update[OF readsOwnCells_list[OF readsOwnCells_rule] cellR1 elems1]
      by simp
    moreover have "readRule ?s2 rule = Some defaultNewRule"
      using rules_array_update[OF readsOwnCells_rule cellR1 rd1] by simp
    ultimately have "readList readRule ?s2 refs2 = Some rs2"
      by (rule rs2)
    then have "readParameter ?s2 feature = Some \<lparr>name = n, featureStage = st, rules = rs2\<rparr>"
      by (simp add: readParameter_def readRules_def cellF2 cellR2)
    moreover have "ruleRefs ?s2 feature = refs2"
      by (simp add: ruleRefs_def cellF2 cellR2)
    moreover have "freshDefaultRule s ?s2 rule"
      using cellR1 len rd1 fresh old by (rule freshDefaultRule_array)
    ultimately show ?thesis by blast
  qed
  have refs: "ruleRefs s feature = refs"
    by (simp add: ruleRefs_def cellF cellR)
  have top: "addNewRuleToTop_store template s feature = Some (s1[rulesRef := RulesCell (rule # refs)])"
    by (simp add: addNewRuleToTop_store_def cellF clone cellR1)
  have bottom: "addNewRuleToBottom_store template s feature =
      Some (s1[rulesRef := RulesCell (refs @ [rule])])"
    by (simp add: addNewRuleToBottom_store_def cellF clone cellR1)
  have Ftop: "addNewRuleToTop F = \<lparr>name = n, featureStage = st, rules = defaultNewRule # rules F\<rparr>"
    by (subst F) (simp add: addNewRuleToTop_def cloneDeep_def)
  have Fbottom: "addNewRuleToBottom F =
      \<lparr>name = n, featureStage = st, rules = rules F @ [defaultNewRule]\<rparr>"
    by (subst F) (simp add: addNewRuleToBottom_def cloneDeep_def)
  have "\<exists>s1 rule. addNewRuleToTop_store template s feature = Some s1 \<and>
            ruleRefs s1 feature = rule # ruleRefs s feature \<and>
            readParameter s1 feature = Some (addNewRuleToTop F) \<and>
            freshDefaultRule s s1 rule"
    using inserted[of "rule # refs" "defaultNewRule # rules F"] top refs Ftop by simp
  moreover have "\<exists>s1 rule. addNewRuleToBottom_store template s feature = Some s1 \<and>
            ruleRefs s1 feature = ruleRefs s feature @ [rule] \<and>
            readParameter s1 feature = Some (addNewRuleToBottom F) \<and>
            freshDefaultRule s s1 rule"
    using inserted[of "refs @ [rule]" "rules F @ [defaultNewRule]"] bottom refs Fbottom
    by (simp add: readList_append)
  moreover have "addNewRuleToTop F = F\<lparr>rules := defaultNewRule # rules F\<rparr>"
    and "addNewRuleToBottom F = F\<lparr>rules := rules F @ [defaultNewRule]\<rparr>"
    by (simp_all add: addNewRuleToTop_def addNewRuleToBottom_def cloneDeep_def)
  moreover have "defaultNewRule =
      \<lparr>filters = [\<lparr>type = PlatformType, conditions = []\<rparr>], valueWhenMatched = False\<rparr>"
    by (simp add: defaultNewRule_def defaultNewFilter_def)
  ultimately show ?thesis
    by blast
qed

theorem addNewRule_fresh_deep_copy_witness:
  "\<exists>s1 rule.
     addNewRuleToTop_store 3
       [ConditionsCell [], FilterCell PlatformType 0, FiltersCell [1], RuleCell 2 False,
        ConditionCell ''='' ''Web'', ConditionsCell [4], FilterCell PlatformType 5,
        FiltersCell [6], RuleCell 7 True, RulesCell [8], ParameterCell ''Foo'' ''dev'' 9]
       10 = Some s1 \<and>
     ruleRefs s1 10 = [rule, 8] \<and>
     readParameter s1 10 =
       Some \<lparr>name = ''Foo'', featureStage = ''dev'',
             rules = [\<lparr>filters = [\<lparr>type = PlatformType, conditions = []\<rparr>],
                       valueWhenMatched = False\<rparr>,
                      \<lparr>filters = [\<lparr>type = PlatformType, conditions = [(''='', ''Web'')]\<rparr>],
                       valueWhenMatched = True\<rparr>]\<rparr> \<and>
     freshDefaultRule
       [ConditionsCell [], FilterCell PlatformType 0, FiltersCell [1], RuleCell 2 False,
        ConditionCell ''='' ''Web'', ConditionsCell [4], FilterCell PlatformType 5,
        FiltersCell [6], RuleCell 7 True, RulesCell [8], ParameterCell ''Foo'' ''dev'' 9]
       s1 rule"
proof -
  let ?s = "[ConditionsCell [], FilterCell PlatformType 0, FiltersCell [1], RuleCell 2 False,
        ConditionCell ''='' ''Web'', ConditionsCell [4], FilterCell PlatformType 5,
        FiltersCell [6], RuleCell 7 True, RulesCell [8], ParameterCell ''Foo'' ''dev'' 9]"
  let ?F = "\<lparr>name = ''Foo'', featureStage = ''dev'',
             rules = [\<lparr>filters = [\<lparr>type = PlatformType, conditions = [(''='', ''Web'')]\<rparr>],
                       valueWhenMatched = True\<rparr>]\<rparr>"
  have rdF: "readParameter ?s 10 = Some ?F"
    by (simp add: readParameter_def readRules_def readRule_def readFilters_def readFilter_def
        readConditions_def readCondition_def lookup_def)
  have rdT: "readRule ?s 3 = Some defaultNewRule"
    by (simp add: readRule_def readFilters_def readFilter_def readConditions_def lookup_def
        defaultNewRule_def defaultNewFilter_def)
  have refs: "ruleRefs ?s 10 = [8]"
    by (simp add: ruleRefs_def lookup_def)
  have top: "addNewRuleToTop ?F =
      \<lparr>name = ''Foo'', featureStage = ''dev'',
       rules = [\<lparr>filters = [\<lparr>type = PlatformType, conditions = []\<rparr>],
                 valueWhenMatched = False\<rparr>,
                \<lparr>filters = [\<lparr>type = PlatformType, conditions = [(''='', ''Web'')]\<rparr>],
                 valueWhenMatched = True\<rparr>]\<rparr>"
    by (simp add: addNewRuleToTop_def cloneDeep_def defaultNewRule_def defaultNewFilter_def)
  from addNewRule_fresh_deep_copy[OF rdF rdT] obtain s1 rule where
    "addNewRuleToTop_store 3 ?s 10 = Some s1"
    and "ruleRefs s1 10 = rule # ruleRefs ?s 10"
    and "readParameter s1 10 = Some (addNewRuleToTop ?F)"
    and "freshDefaultRule ?s s1 rule"
    by blast
  then show ?thesis
    unfolding refs top by blast
qed

section \<open>Change tracking and reverting\<close>

text \<open>
  C2. Without a backup for the name of the flag \<^verbatim>\<open>isFeatureFlagChanged\<close> throws; with a
  backup it returns whether the rules of the backup and of the flag differ, where two
  sequences of rules are the same when they have the same length and the same rule at
  every index.
\<close>

theorem isFeatureFlagChanged_backup:
  "isFeatureFlagChanged
     (this\<lparr>featureFlagNameToBackupMap := backups(name feature := None)\<rparr>) feature =
     Inl (Error (''Backup not found for feature flag: '' @ name feature)) \<and>
   isFeatureFlagChanged
     (this\<lparr>featureFlagNameToBackupMap := backups(name feature \<mapsto> original)\<rparr>) feature =
     Inr (\<not> (length (rules original) = length (rules feature) \<and>
              (\<forall>k < length (rules feature). rules original ! k = rules feature ! k)))"
  by (simp add: isFeatureFlagChanged_def isEqualRules_iff list_eq_iff_nth_eq)

theorem isFeatureFlagChanged_backup_witness:
  "isFeatureFlagChanged
     \<lparr>serverStage = ''dev'',
      featureFlagNameToBackupMap =
        [''Foo'' \<mapsto> \<lparr>name = ''Foo'', featureStage = ''dev'',
                       rules = [\<lparr>filters = [], valueWhenMatched = True\<rparr>,
                                \<lparr>filters = [], valueWhenMatched = False\<rparr>]\<rparr>],
      featureFlags = [], events = []\<rparr>
     \<lparr>name = ''Foo'', featureStage = ''dev'',
      rules = [\<lparr>filters = [], valueWhenMatched = False\<rparr>,
               \<lparr>filters = [], valueWhenMatched = True\<rparr>]\<rparr> = Inr True"
proof -
  have differ: "\<exists>k < Suc (Suc 0). [a, b] ! k \<noteq> [b, a] ! k" if "a \<noteq> b"
    for a b :: PlatformParameterRule
    using that by (auto intro!: exI[of _ 0])
  show ?thesis
    using isFeatureFlagChanged_backup[where
      this = "\<lparr>serverStage = ''dev'', featureFlagNameToBackupMap = Map.empty,
        featureFlags = [], events = []\<rparr>"
      and backups = Map.empty
      and feature = "\<lparr>name = ''Foo'', featureStage = ''dev'',
        rules = [\<lparr>filters = [], valueWhenMatched = False\<rparr>,
                 \<lparr>filters = [], valueWhenMatched = True\<rparr>]\<rparr>"
      and original = "\<lparr>name = ''Foo'', featureStage = ''dev'',
        rules = [\<lparr>filters = [], valueWhenMatched = True\<rparr>,
                 \<lparr>filters = [], valueWhenMatched = False\<rparr>]\<rparr>"]
    by (simp add: differ)
qed

text \<open>
  C10. On objects, once the user has confirmed: without a backup for the name of the
  flag \<^verbatim>\<open>clearChanges\<close> leaves the component and its store as they are and throws
  nothing, where \<^verbatim>\<open>isFeatureFlagChanged\<close> throws. With a backup the flag refers to a
  new array of rules \<open>r1\<close> that reads as the rules of the backup, so that the flag reads
  as before with the rules of the backup, as \<^verbatim>\<open>clearChanges\<close> on values says. The array
  is a deep copy: all its cells are new, no write to a cell that was there (those of
  the backup among them) changes it, and no write to one of its cells changes the
  backup, which reads as before.
\<close>

theorem clearChanges_store_backup:
  assumes rdF: "readParameter (heap this) featureFlag = Some F"
  shows "(backupRefs this (name F) = None \<longrightarrow>
            clearChanges_store True this featureFlag = Some this \<and>
            isFeatureFlagChanged
              (C\<lparr>featureFlagNameToBackupMap := readBackups (heap this) (backupRefs this)\<rparr>) F =
              Inl (Error (''Backup not found for feature flag: '' @ name F))) \<and>
         (\<forall>b B. backupRefs this (name F) = Some b \<and> readParameter (heap this) b = Some B \<longrightarrow>
            (\<exists>s1 r1.
               clearChanges_store True this featureFlag = Some (this\<lparr>heap := s1\<rparr>) \<and>
               lookup s1 featureFlag = Some (ParameterCell (name F) (featureStage F) r1) \<and>
               readRules s1 r1 = Some (rules B) \<and>
               readParameter s1 featureFlag = Some (F\<lparr>rules := rules B\<rparr>) \<and>
               readParameter s1 featureFlag =
                 Some (clearChanges True
                   (C\<lparr>featureFlagNameToBackupMap := readBackups (heap this) (backupRefs this)\<rparr>) F) \<and>
               readParameter s1 b = Some B \<and>
               (\<forall>x \<in> cellsRules s1 r1. length (heap this) \<le> x) \<and>
               (\<forall>x c. x < length (heap this) \<longrightarrow> readRules (s1[x := c]) r1 = Some (rules B)) \<and>
               (\<forall>x c. b \<noteq> featureFlag \<and> x \<in> cellsRules s1 r1 \<longrightarrow>
                      readParameter (s1[x := c]) b = Some B)))"
proof -
  let ?s = "heap this"
  let ?C = "C\<lparr>featureFlagNameToBackupMap := readBackups ?s (backupRefs this)\<rparr>"
  from rdF obtain n st r where
    cellF: "lookup ?s featureFlag = Some (ParameterCell n st r)"
    and F: "name F = n" "featureStage F = st"
    by (auto simp: readParameter_def split: option.splits cell.splits)
  have without: "backupRefs this (name F) = None \<longrightarrow>
      clearChanges_store True this featureFlag = Some this \<and>
      isFeatureFlagChanged ?C F = Inl (Error (''Backup not found for feature flag: '' @ name F))"
    using F by (auto simp: clearChanges_store_def cellF isFeatureFlagChanged_def readBackups_def)
  have with_backup: "\<exists>s1 r1.
               clearChanges_store True this featureFlag = Some (this\<lparr>heap := s1\<rparr>) \<and>
               lookup s1 featureFlag = Some (ParameterCell (name F) (featureStage F) r1) \<and>
               readRules s1 r1 = Some (rules B) \<and>
               readParameter s1 featureFlag = Some (F\<lparr>rules := rules B\<rparr>) \<and>
               readParameter s1 featureFlag = Some (clearChanges True ?C F) \<and>
               readParameter s1 b = Some B \<and>
               (\<forall>x \<in> cellsRules s1 r1. length (heap this) \<le> x) \<and>
               (\<forall>x c. x < length (heap this) \<longrightarrow> readRules (s1[x := c]) r1 = Some (rules B)) \<and>
               (\<forall>x c. b \<noteq> featureFlag \<and> x \<in> cellsRules s1 r1 \<longrightarrow>
                      readParameter (s1[x := c]) b = Some B)"
    if some: "backupRefs this (name F) = Some b \<and> readParameter ?s b = Some B" for b B
  proof -
  from some have ref: "backupRefs this n = Some b" and rdB: "readParameter ?s b = Some B"
    using F by simp_all
  from rdB obtain bn bst br where
    cellB: "lookup ?s b = Some (ParameterCell bn bst br)"
    and rulesB: "readRules ?s br = Some (rules B)"
    by (auto simp: readParameter_def split: option.splits cell.splits)
  from copiesDeeplyD[OF copiesDeeply_rules rulesB] obtain s0 r1 where
    clone: "cloneDeepRules ?s br = Some (s0, r1)" and ext: "extends ?s s0"
    and rd0: "readRules s0 r1 = Some (rules B)"
    and fresh0: "\<And>x. x \<in> cellsRules s0 r1 \<Longrightarrow> length ?s \<le> x"
    by blast
  let ?s1 = "s0[featureFlag := ParameterCell n st r1]"
  have boundF: "featureFlag < length ?s"
    using cellF by (simp add: lookup_Some_iff)
  have boundF0: "featureFlag < length s0"
    using boundF extends_length[OF ext] by simp
  have notin: "featureFlag \<notin> cellsRules s0 r1"
    using fresh0[of featureFlag] boundF by auto
  have rd1: "readRules ?s1 r1 = Some (rules B)" and cells1: "cellsRules ?s1 r1 = cellsRules s0 r1"
    using readsOwnCells_update[OF readsOwnCells_rules rd0 notin] by simp_all
  have cellF1: "lookup ?s1 featureFlag = Some (ParameterCell n st r1)"
    using boundF0 by (simp add: lookup_update)
  have rdF1: "readParameter ?s1 featureFlag = Some (F\<lparr>rules := rules B\<rparr>)"
    using rdF by (auto simp: readParameter_def cellF cellF1 rd1 split: option.splits)
  have fresh1: "length ?s \<le> x" if "x \<in> cellsRules ?s1 r1" for x
    using that cells1 fresh0 by simp
  have apart1: "readRules (?s1[x := c]) r1 = Some (rules B)" if "x < length ?s" for x c
  proof -
    have "x \<notin> cellsRules ?s1 r1"
      using fresh1[of x] that by auto
    then show ?thesis
      using readsOwnCells_update[OF readsOwnCells_rules rd1] by simp
  qed
  have rdB0: "readParameter s0 b = Some B" and cellsB0: "cellsParameter s0 b = cellsParameter ?s b"
    using readsOwnCells_extends[OF readsOwnCells_parameter rdB ext] by simp_all
  have other: "readParameter ?s1 b = Some B \<and> cellsParameter ?s1 b = cellsParameter ?s b"
    if ne: "b \<noteq> featureFlag"
  proof -
    have cellF0: "lookup s0 featureFlag = Some (ParameterCell n st r)"
      using lookup_extends[OF ext cellF] .
    have cellB0: "lookup s0 b = Some (ParameterCell bn bst br)"
      using lookup_extends[OF ext cellB] .
    have rulesB0: "readRules s0 br = Some (rules B)"
      using readsOwnCells_extends[OF readsOwnCells_rules rulesB ext] by simp
    have "featureFlag \<notin> cellsRules s0 br"
      using readsOwnCells_kind[OF readsOwnCells_rules_below rulesB0 cellF0]
      by (simp add: belowParameter_def)
    then have "featureFlag \<notin> cellsParameter s0 b"
      using ne by (simp add: cellsParameter_def cellB0)
    then show ?thesis
      using readsOwnCells_update[OF readsOwnCells_parameter rdB0] cellsB0 by simp
  qed
  have rdB1: "readParameter ?s1 b = Some B"
  proof (cases "b = featureFlag")
    case True
    then have "F = B"
      using rdF rdB by simp
    then show ?thesis
      using rdF1 True by simp
  next
    case False
    then show ?thesis
      using other by simp
  qed
  have apart2: "readParameter (?s1[x := c]) b = Some B"
    if "b \<noteq> featureFlag" and "x \<in> cellsRules ?s1 r1" for x c
  proof -
    have b1: "readParameter ?s1 b = Some B" and c1: "cellsParameter ?s1 b = cellsParameter ?s b"
      using other that(1) by simp_all
    have "length ?s \<le> x"
      using fresh1 that(2) by simp
    then have "x \<notin> cellsParameter ?s b"
      using readsOwnCells_bound[OF readsOwnCells_parameter rdB, of x] by auto
    then show ?thesis
      using readsOwnCells_update[OF readsOwnCells_parameter b1, of x c] c1 by simp
  qed
  have run: "clearChanges_store True this featureFlag = Some (this\<lparr>heap := ?s1\<rparr>)"
    by (simp add: clearChanges_store_def cellF ref cellB clone)
  have onValues: "clearChanges True ?C F = F\<lparr>rules := rules B\<rparr>"
    using some by (simp add: clearChanges_def readBackups_def cloneDeep_def)
  show ?thesis
    by (intro exI[of _ "?s1"] exI[of _ r1])
      (simp add: run cellF1 F rd1 rdF1 onValues rdB1 fresh1 apart1 apart2)
  qed
  show ?thesis
    using without with_backup by blast
qed

theorem clearChanges_store_backup_witness:
  "clearChanges_store True
     \<lparr>heap = [ConditionCell ''='' ''Web'', ConditionsCell [0], FilterCell PlatformType 1,
              FiltersCell [2], RuleCell 3 True, RulesCell [4], ParameterCell ''Foo'' ''dev'' 5,
              RulesCell [], ParameterCell ''Foo'' ''dev'' 7],
      backupRefs = Map.empty, emitted = []\<rparr> 8 =
   Some \<lparr>heap = [ConditionCell ''='' ''Web'', ConditionsCell [0], FilterCell PlatformType 1,
              FiltersCell [2], RuleCell 3 True, RulesCell [4], ParameterCell ''Foo'' ''dev'' 5,
              RulesCell [], ParameterCell ''Foo'' ''dev'' 7],
      backupRefs = Map.empty, emitted = []\<rparr> \<and>
   (\<exists>s1 r1.
      clearChanges_store True
        \<lparr>heap = [ConditionCell ''='' ''Web'', ConditionsCell [0], FilterCell PlatformType 1,
                 FiltersCell [2], RuleCell 3 True, RulesCell [4], ParameterCell ''Foo'' ''dev'' 5,
                 RulesCell [], ParameterCell ''Foo'' ''dev'' 7],
         backupRefs = [''Foo'' \<mapsto> 6], emitted = []\<rparr> 8 =
      Some \<lparr>heap = s1, backupRefs = [''Foo'' \<mapsto> 6], emitted = []\<rparr> \<and>
      lookup s1 8 = Some (ParameterCell ''Foo'' ''dev'' r1) \<and>
      9 \<le> r1 \<and>
      readParameter s1 8 =
        Some \<lparr>name = ''Foo'', featureStage = ''dev'',
              rules = [\<lparr>filters = [\<lparr>type = PlatformType, conditions = [(''='', ''Web'')]\<rparr>],
                        valueWhenMatched = True\<rparr>]\<rparr> \<and>
      readRules (s1[4 := RuleCell 3 False]) r1 =
        Some [\<lparr>filters = [\<lparr>type = PlatformType, conditions = [(''='', ''Web'')]\<rparr>],
               valueWhenMatched = True\<rparr>])"
proof -
  let ?s = "[ConditionCell ''='' ''Web'', ConditionsCell [0], FilterCell PlatformType 1,
              FiltersCell [2], RuleCell 3 True, RulesCell [4], ParameterCell ''Foo'' ''dev'' 5,
              RulesCell [], ParameterCell ''Foo'' ''dev'' 7]"
  let ?F = "\<lparr>name = ''Foo'', featureStage = ''dev'', rules = []\<rparr>"
  let ?B = "\<lparr>name = ''Foo'', featureStage = ''dev'',
      rules = [\<lparr>filters = [\<lparr>type = PlatformType, conditions = [(''='', ''Web'')]\<rparr>],
                valueWhenMatched = True\<rparr>]\<rparr>"
  let ?T0 = "\<lparr>heap = ?s, backupRefs = Map.empty, emitted = []\<rparr>"
  let ?T1 = "\<lparr>heap = ?s, backupRefs = [''Foo'' \<mapsto> 6], emitted = []\<rparr>"
  have rdF0: "readParameter (heap ?T0) 8 = Some ?F"
    by (simp add: readParameter_def readRules_def lookup_def)
  have rdF1: "readParameter (heap ?T1) 8 = Some ?F"
    by (simp add: readParameter_def readRules_def lookup_def)
  have rdB: "readParameter (heap ?T1) 6 = Some ?B"
    by (simp add: readParameter_def readRules_def readRule_def readFilters_def readFilter_def
        readConditions_def readCondition_def lookup_def)
  have ref: "backupRefs ?T1 (name ?F) = Some 6"
    by simp
  have len: "length (heap ?T1) = 9"
    by simp
  have without: "clearChanges_store True ?T0 8 = Some ?T0"
    using clearChanges_store_backup[OF rdF0] by simp
  from clearChanges_store_backup[OF rdF1] ref rdB obtain s1 r1 where
    run: "clearChanges_store True ?T1 8 = Some (?T1\<lparr>heap := s1\<rparr>)"
    and cell: "lookup s1 8 = Some (ParameterCell (name ?F) (featureStage ?F) r1)"
    and flag: "readParameter s1 8 = Some (?F\<lparr>rules := rules ?B\<rparr>)"
    and fresh: "\<forall>x \<in> cellsRules s1 r1. length (heap ?T1) \<le> x"
    and apart: "\<forall>x c. x < length (heap ?T1) \<longrightarrow> readRules (s1[x := c]) r1 = Some (rules ?B)"
    by blast
  have "r1 \<in> cellsRules s1 r1"
    by (simp add: cellsRules_def)
  then have "9 \<le> r1"
    using fresh len by auto
  moreover have "readRules (s1[4 := RuleCell 3 False]) r1 = Some (rules ?B)"
    using apart len by simp
  ultimately have "\<exists>s1 r1.
      clearChanges_store True ?T1 8 = Some \<lparr>heap = s1, backupRefs = [''Foo'' \<mapsto> 6], emitted = []\<rparr> \<and>
      lookup s1 8 = Some (ParameterCell ''Foo'' ''dev'' r1) \<and> 9 \<le> r1 \<and>
      readParameter s1 8 = Some ?B \<and>
      readRules (s1[4 := RuleCell 3 False]) r1 = Some (rules ?B)"
    using run cell flag by (intro exI[of _ s1] exI[of _ r1]) simp
  then show ?thesis
    using without by simp
qed

section \<open>Saving\<close>

text \<open>
  C3. On objects. When the request resolves, the backup map refers, under the name of
  the flag, to a copy of the flag, and \<open>Saved successfully.\<close> is emitted. The copy is
  deep: it reads as the saved flag, all its cells are new, no write to a cell that was
  there (those of the flag among them) changes it, and no write to one of its cells
  changes the flag. When the request rejects with an \<^verbatim>\<open>HttpErrorResponse\<close> that carries
  a message, the message follows \<open>Update failed: \<close> in the status emitted; when the
  response carries none, the status is \<open>Update failed.\<close>. Any other rejection makes
  \<^verbatim>\<open>updateFeatureFlag\<close> throw \<open>Unexpected error response.\<close>: nothing is emitted, and the
  backup map and the store are as before.
\<close>

theorem updateFeatureFlag_store_outcomes:
  assumes rdF: "readParameter (heap this) feature = Some F"
  shows "(\<exists>s1 copy.
            updateFeatureFlag_store Resolved this feature commitMessage =
              Some (Inr (this\<lparr>heap := s1,
                               backupRefs := (backupRefs this)(name F \<mapsto> copy),
                               emitted := emitted this @
                                 [UpdateRequest (name F) commitMessage (rules F),
                                  StatusMessage ''Saved successfully.'']\<rparr>)) \<and>
            extends (heap this) s1 \<and>
            readParameter s1 copy = Some F \<and>
            readParameter s1 feature = Some F \<and>
            (\<forall>x \<in> cellsParameter s1 copy. length (heap this) \<le> x) \<and>
            (\<forall>x c. x < length (heap this) \<longrightarrow> readParameter (s1[x := c]) copy = Some F) \<and>
            (\<forall>x c. x \<in> cellsParameter s1 copy \<longrightarrow> readParameter (s1[x := c]) feature = Some F)) \<and>
         updateFeatureFlag_store (Rejected (HttpErrorResponse (Some (ErrorBody (Some (c # cs))))))
             this feature commitMessage =
           Some (Inr (this\<lparr>emitted := emitted this @
                        [UpdateRequest (name F) commitMessage (rules F),
                         StatusMessage (''Update failed: '' @ c # cs)]\<rparr>)) \<and>
         updateFeatureFlag_store (Rejected (HttpErrorResponse (Some (ErrorBody (Some [])))))
             this feature commitMessage =
           Some (Inr (this\<lparr>emitted := emitted this @
                        [UpdateRequest (name F) commitMessage (rules F),
                         StatusMessage ''Update failed.'']\<rparr>)) \<and>
         updateFeatureFlag_store (Rejected (HttpErrorResponse (Some (ErrorBody None))))
             this feature commitMessage =
           Some (Inr (this\<lparr>emitted := emitted this @
                        [UpdateRequest (name F) commitMessage (rules F),
                         StatusMessage ''Update failed.'']\<rparr>)) \<and>
         updateFeatureFlag_store (Rejected (HttpErrorResponse None)) this feature commitMessage =
           Some (Inr (this\<lparr>emitted := emitted this @
                        [UpdateRequest (name F) commitMessage (rules F),
                         StatusMessage ''Update failed.'']\<rparr>)) \<and>
         updateFeatureFlag_store (Rejected OtherRejection) this feature commitMessage =
           Some (Inl (Error ''Unexpected error response.'',
                      this\<lparr>emitted := emitted this @
                        [UpdateRequest (name F) commitMessage (rules F)]\<rparr>))"
proof -
  let ?s = "heap this"
  from deep_copy_apart[OF readsOwnCells_parameter copiesDeeply_parameter rdF] obtain s1 copy where
    clone: "cloneDeepParameter ?s feature = Some (s1, copy)" and ext: "extends ?s s1"
    and rd1: "readParameter s1 copy = Some F"
    and fresh: "\<forall>x \<in> cellsParameter s1 copy. length ?s \<le> x"
    and apart: "\<forall>x c. x < length ?s \<longrightarrow> readParameter (s1[x := c]) copy = Some F"
    by blast
  have saved: "updateFeatureFlag_store Resolved this feature commitMessage =
      Some (Inr (this\<lparr>heap := s1, backupRefs := (backupRefs this)(name F \<mapsto> copy),
                       emitted := emitted this @
                         [UpdateRequest (name F) commitMessage (rules F),
                          StatusMessage ''Saved successfully.'']\<rparr>))"
    by (simp add: updateFeatureFlag_store_def rdF clone Let_def)
  have flag1: "readParameter s1 feature = Some F"
    using readsOwnCells_extends[OF readsOwnCells_parameter rdF ext] by simp
  have flag2: "readParameter (s1[x := c]) feature = Some F" if "x \<in> cellsParameter s1 copy" for x c
    using earlier_object_apart[OF readsOwnCells_parameter rdF ext] fresh that by blast
  have resolved: "\<exists>s1 copy.
            updateFeatureFlag_store Resolved this feature commitMessage =
              Some (Inr (this\<lparr>heap := s1,
                               backupRefs := (backupRefs this)(name F \<mapsto> copy),
                               emitted := emitted this @
                                 [UpdateRequest (name F) commitMessage (rules F),
                                  StatusMessage ''Saved successfully.'']\<rparr>)) \<and>
            extends (heap this) s1 \<and>
            readParameter s1 copy = Some F \<and>
            readParameter s1 feature = Some F \<and>
            (\<forall>x \<in> cellsParameter s1 copy. length (heap this) \<le> x) \<and>
            (\<forall>x c. x < length (heap this) \<longrightarrow> readParameter (s1[x := c]) copy = Some F) \<and>
            (\<forall>x c. x \<in> cellsParameter s1 copy \<longrightarrow> readParameter (s1[x := c]) feature = Some F)"
    using saved ext rd1 flag1 fresh apart flag2 by blast
  show ?thesis
    using resolved by (simp add: updateFeatureFlag_store_def rdF Let_def)
qed

theorem updateFeatureFlag_store_outcomes_witness:
  "\<exists>s1 copy.
     updateFeatureFlag_store Resolved
       \<lparr>heap = [ConditionCell ''='' ''Web'', ConditionsCell [0], FilterCell PlatformType 1,
                FiltersCell [2], RuleCell 3 True, RulesCell [4], ParameterCell ''Foo'' ''dev'' 5],
        backupRefs = Map.empty, emitted = []\<rparr>
       6 ''Update feature.'' =
     Some (Inr \<lparr>heap = s1, backupRefs = [''Foo'' \<mapsto> copy],
                emitted = [UpdateRequest ''Foo'' ''Update feature.''
                             [\<lparr>filters = [\<lparr>type = PlatformType, conditions = [(''='', ''Web'')]\<rparr>],
                               valueWhenMatched = True\<rparr>],
                           StatusMessage ''Saved successfully.'']\<rparr>) \<and>
     7 \<le> copy \<and>
     readParameter s1 copy =
       Some \<lparr>name = ''Foo'', featureStage = ''dev'',
             rules = [\<lparr>filters = [\<lparr>type = PlatformType, conditions = [(''='', ''Web'')]\<rparr>],
                       valueWhenMatched = True\<rparr>]\<rparr> \<and>
     readParameter (s1[4 := RuleCell 3 False]) copy =
       Some \<lparr>name = ''Foo'', featureStage = ''dev'',
             rules = [\<lparr>filters = [\<lparr>type = PlatformType, conditions = [(''='', ''Web'')]\<rparr>],
                       valueWhenMatched = True\<rparr>]\<rparr>"
proof -
  let ?s = "[ConditionCell ''='' ''Web'', ConditionsCell [0], FilterCell PlatformType 1,
         FiltersCell [2], RuleCell 3 True, RulesCell [4], ParameterCell ''Foo'' ''dev'' 5]"
  let ?F = "\<lparr>name = ''Foo'', featureStage = ''dev'',
      rules = [\<lparr>filters = [\<lparr>type = PlatformType, conditions = [(''='', ''Web'')]\<rparr>],
                valueWhenMatched = True\<rparr>]\<rparr>"
  let ?T = "\<lparr>heap = ?s, backupRefs = Map.empty, emitted = []\<rparr>"
  have rd: "readParameter (heap ?T) 6 = Some ?F"
    by (simp add: readParameter_def readRules_def readRule_def readFilters_def readFilter_def
        readConditions_def readCondition_def lookup_def)
  have len: "length (heap ?T) = 7"
    by simp
  from updateFeatureFlag_store_outcomes[OF rd, of "''Update feature.''"] obtain s1 copy where
    run: "updateFeatureFlag_store Resolved ?T 6 ''Update feature.'' =
        Some (Inr (?T\<lparr>heap := s1, backupRefs := (backupRefs ?T)(name ?F \<mapsto> copy),
                        emitted := emitted ?T @
                          [UpdateRequest (name ?F) ''Update feature.'' (rules ?F),
                           StatusMessage ''Saved successfully.'']\<rparr>))"
    and rd1: "readParameter s1 copy = Some ?F"
    and fresh: "\<forall>x \<in> cellsParameter s1 copy. length (heap ?T) \<le> x"
    and apart: "\<forall>x c. x < length (heap ?T) \<longrightarrow> readParameter (s1[x := c]) copy = Some ?F"
    by blast
  have "copy \<in> cellsParameter s1 copy"
    by (simp add: cellsParameter_def)
  then have "7 \<le> copy"
    using fresh len by auto
  moreover have "readParameter (s1[4 := RuleCell 3 False]) copy = Some ?F"
    using apart len by simp
  ultimately show ?thesis
    using run rd1 by (intro exI[of _ s1] exI[of _ copy]) simp
qed

text \<open>
  On objects and on values \<^verbatim>\<open>updateFeatureFlag\<close> ends the same way and leaves the same
  trace.
\<close>

lemma updateFeatureFlag_store_trace:
  assumes rdF: "readParameter (heap this) feature = Some F"
    and ev: "events C = emitted this"
  shows "\<exists>r. updateFeatureFlag_store outcome this feature commitMessage = Some r \<and>
           map_sum (\<lambda>(e, t). (e, emitted t)) emitted r =
           map_sum (\<lambda>(e, c). (e, events c)) events
             (updateFeatureFlag outcome C F commitMessage)"
proof (cases outcome)
  case Resolved
  from copiesDeeplyD[OF copiesDeeply_parameter rdF] obtain s1 copy where
    "cloneDeepParameter (heap this) feature = Some (s1, copy)"
    by blast
  then show ?thesis
    using Resolved ev
    by (simp add: updateFeatureFlag_store_def updateFeatureFlag_def emit_def rdF Let_def)
next
  case (Rejected rejection)
  then show ?thesis
    using ev
    by (cases rejection)
      (auto simp: updateFeatureFlag_store_def updateFeatureFlag_def emit_def rdF Let_def
        split: option.splits error_body.splits)
qed

lemma updateFeatureFlag_recoverable:
  assumes "outcome \<noteq> Rejected OtherRejection"
  shows "\<exists>this1 message. updateFeatureFlag outcome this feature commitMessage = Inr this1 \<and>
           events this1 = events this @
             [UpdateRequest (name feature) commitMessage (rules feature), StatusMessage message]"
proof (cases outcome)
  case Resolved
  then show ?thesis by (simp add: updateFeatureFlag_def emit_def Let_def)
next
  case (Rejected rejection)
  then show ?thesis
    using assms
    by (cases rejection)
      (auto simp: updateFeatureFlag_def emit_def Let_def split: option.splits error_body.splits)
qed

lemma saveLoop_recoverable:
  "\<forall>j < length pre. api (k + j) \<noteq> Rejected OtherRejection \<Longrightarrow>
   \<exists>this1 messages. length messages = length pre \<and>
      events this1 = events this @ savedTrace pre messages \<and>
      saveLoop api k this (pre @ rest) = saveLoop api (k + length pre) this1 rest"
proof (induction pre arbitrary: k this)
  case Nil
  show ?case by (auto simp: savedTrace_def intro!: exI[of _ this])
next
  case (Cons feature pre)
  have "api k \<noteq> Rejected OtherRejection"
    using Cons.prems by force
  then obtain this1 message where
    step: "updateFeatureFlag (api k) this feature (commitMessageFor feature) = Inr this1"
    and ev1: "events this1 = events this @ [updateRequestFor feature, StatusMessage message]"
    using updateFeatureFlag_recoverable[of "api k" this feature "commitMessageFor feature"]
    by (auto simp: updateRequestFor_def)
  have "\<forall>j < length pre. api (Suc k + j) \<noteq> Rejected OtherRejection"
    using Cons.prems by force
  then obtain this2 messages where
    len: "length messages = length pre"
    and ev2: "events this2 = events this1 @ savedTrace pre messages"
    and loop: "saveLoop api (Suc k) this1 (pre @ rest) = saveLoop api (Suc k + length pre) this2 rest"
    using Cons.IH[of "Suc k" this1] by blast
  have "length (message # messages) = length (feature # pre)"
    using len by simp
  moreover have "events this2 = events this @ savedTrace (feature # pre) (message # messages)"
    using ev1 ev2 by (simp add: savedTrace_def)
  moreover have "saveLoop api k this ((feature # pre) @ rest) =
      saveLoop api (k + length (feature # pre)) this2 rest"
    using step loop by simp
  ultimately show ?case by blast
qed

text \<open>
  C4. The flags are saved in the order of the list, each request after the status of
  the save before it. If the save of the flag after \<open>pre\<close> throws, and none of the saves
  of \<open>pre\<close> did, the trace is the saves of \<open>pre\<close>, completed, and the one request for
  that flag: no request is made for a flag of \<open>post\<close>. Saves that fail with a status
  message do not end the loop: if no save throws, every flag is saved.
\<close>

theorem saveDefaultValueToStorage_sequential:
  "(featureFlags this = pre @ feature # post \<and>
    (\<forall>j < length pre. api j \<noteq> Rejected OtherRejection) \<and>
    api (length pre) = Rejected OtherRejection \<longrightarrow>
    (\<exists>this1 messages. length messages = length pre \<and>
       saveDefaultValueToStorage True api this = Inl (Error ''Unexpected error response.'', this1) \<and>
       events this1 = events this @ savedTrace pre messages @ [updateRequestFor feature])) \<and>
   ((\<forall>j < length (featureFlags this). api j \<noteq> Rejected OtherRejection) \<longrightarrow>
    (\<exists>this1 messages. length messages = length (featureFlags this) \<and>
       saveDefaultValueToStorage True api this = Inr this1 \<and>
       events this1 = events this @ savedTrace (featureFlags this) messages))"
proof (intro conjI impI)
  assume a: "featureFlags this = pre @ feature # post \<and>
    (\<forall>j < length pre. api j \<noteq> Rejected OtherRejection) \<and>
    api (length pre) = Rejected OtherRejection"
  then obtain this1 messages where
    len: "length messages = length pre"
    and ev: "events this1 = events this @ savedTrace pre messages"
    and loop: "saveLoop api 0 this (pre @ feature # post) = saveLoop api (length pre) this1 (feature # post)"
    using saveLoop_recoverable[of pre api 0 this "feature # post"] by auto
  let ?this2 = "this1\<lparr>events := events this1 @ [updateRequestFor feature]\<rparr>"
  have "saveLoop api (length pre) this1 (feature # post) = Inl (Error ''Unexpected error response.'', ?this2)"
    using a by (simp add: updateFeatureFlag_def Let_def updateRequestFor_def)
  then have "saveDefaultValueToStorage True api this = Inl (Error ''Unexpected error response.'', ?this2)"
    using a loop by (simp add: saveDefaultValueToStorage_def)
  moreover have "events ?this2 = events this @ savedTrace pre messages @ [updateRequestFor feature]"
    using ev by simp
  ultimately show "\<exists>this1 messages. length messages = length pre \<and>
       saveDefaultValueToStorage True api this = Inl (Error ''Unexpected error response.'', this1) \<and>
       events this1 = events this @ savedTrace pre messages @ [updateRequestFor feature]"
    using len by blast
next
  assume "\<forall>j < length (featureFlags this). api j \<noteq> Rejected OtherRejection"
  then obtain this1 messages where
    "length messages = length (featureFlags this)"
    "events this1 = events this @ savedTrace (featureFlags this) messages"
    "saveLoop api 0 this (featureFlags this @ []) = saveLoop api (length (featureFlags this)) this1 []"
    using saveLoop_recoverable[of "featureFlags this" api 0 this "[]"] by auto
  then show "\<exists>this1 messages. length messages = length (featureFlags this) \<and>
       saveDefaultValueToStorage True api this = Inr this1 \<and>
       events this1 = events this @ savedTrace (featureFlags this) messages"
    by (auto simp: saveDefaultValueToStorage_def)
qed

theorem saveDefaultValueToStorage_sequential_witness:
  "\<exists>this1 messages. length messages = 1 \<and>
     saveDefaultValueToStorage True
       (\<lambda>k. if k = 1 then Rejected OtherRejection else Rejected (HttpErrorResponse None))
       \<lparr>serverStage = ''dev'', featureFlagNameToBackupMap = Map.empty,
        featureFlags = [\<lparr>name = ''A'', featureStage = ''dev'', rules = []\<rparr>,
                        \<lparr>name = ''B'', featureStage = ''test'', rules = []\<rparr>,
                        \<lparr>name = ''C'', featureStage = ''prod'', rules = []\<rparr>],
        events = []\<rparr> = Inl (Error ''Unexpected error response.'', this1) \<and>
     events this1 =
       savedTrace [\<lparr>name = ''A'', featureStage = ''dev'', rules = []\<rparr>] messages @
       [updateRequestFor \<lparr>name = ''B'', featureStage = ''test'', rules = []\<rparr>]"
  using saveDefaultValueToStorage_sequential[of
      "\<lparr>serverStage = ''dev'', featureFlagNameToBackupMap = Map.empty,
        featureFlags = [\<lparr>name = ''A'', featureStage = ''dev'', rules = []\<rparr>,
                        \<lparr>name = ''B'', featureStage = ''test'', rules = []\<rparr>,
                        \<lparr>name = ''C'', featureStage = ''prod'', rules = []\<rparr>],
        events = []\<rparr>"
      "[\<lparr>name = ''A'', featureStage = ''dev'', rules = []\<rparr>]"
      "\<lparr>name = ''B'', featureStage = ''test'', rules = []\<rparr>"
      "[\<lparr>name = ''C'', featureStage = ''prod'', rules = []\<rparr>]"
      "\<lambda>k. if k = 1 then Rejected OtherRejection else Rejected (HttpErrorResponse None)"]
  by simp


end
